theory Spec2Isabelle
  imports Main
begin

section \<open>The ledger engine of ReactChain\<close>

text \<open>
  A shallow embedding of \<^verbatim>\<open>src/services/blockchainService.ts\<close> (class
  \<^verbatim>\<open>Blockchain\<close>), of the crypto service it imports, and of the two wallet signing
  paths (\<^verbatim>\<open>confirmSend\<close> in \<^verbatim>\<open>src/components/WalletView.tsx\<close> and
  \<^verbatim>\<open>handleSend\<close> in the variant of the wallet view without a fee,
  \<^verbatim>\<open>src/unnamed/part_000\<close>).

  JavaScript numbers are modelled by integers: amounts, fees, timestamps and block
  indices are \<open>int\<close>, the nonce and the difficulty (a count of characters) are \<open>nat\<close>.
  The program's numbers are IEEE doubles; its sums and differences are those of the
  model as long as every value is an integer of magnitude at most
  \<^verbatim>\<open>Number.MAX_SAFE_INTEGER\<close>. Fractional amounts and \<^verbatim>\<open>NaN\<close> are outside the model.
  Transaction and block objects are modelled as values: every block owns its
  transactions, as it is when every submitted object is a fresh one (the application
  copies a transaction before it replays it).
\<close>

subsection \<open>Data model (\<^verbatim>\<open>src/types.ts\<close>)\<close>

text \<open>
  \<^verbatim>\<open>Transaction\<close>. The field \<^verbatim>\<open>id\<close> is \<open>tx_id\<close> here. The interface declares no
  \<^verbatim>\<open>fee\<close>, but the objects built by \<^verbatim>\<open>confirmSend\<close> carry one, so the field is
  optional: \<open>None\<close> is an object without the property.
\<close>

record Transaction =
  tx_id :: string
  sender :: string
  recipient :: string
  amount :: int
  fee :: "int option"
  timestamp :: int
  signature :: string

text \<open>\<^verbatim>\<open>Block\<close>; its \<^verbatim>\<open>timestamp\<close> and \<^verbatim>\<open>difficulty\<close> are prefixed.\<close>

record Block =
  index :: int
  block_timestamp :: int
  transactions :: "Transaction list"
  previousHash :: string
  hash :: string
  nonce :: nat
  block_difficulty :: nat

text \<open>The fields of class \<^verbatim>\<open>Blockchain\<close>.\<close>

record Blockchain =
  chain :: "Block list"
  pendingTransactions :: "Transaction list"
  difficulty :: nat
  miningReward :: int

text \<open>
  The platform the code runs on: the WebCrypto digest, signing and verification behind
  \<^verbatim>\<open>sha256\<close>, \<^verbatim>\<open>signData\<close> and \<^verbatim>\<open>verifySignature\<close>, \<^verbatim>\<open>JSON.stringify\<close> on a
  transaction array, and \<^verbatim>\<open>parseFloat\<close>. They are parameters of the model; a
  private key is an opaque handle.
\<close>

record platform =
  subtle_digest :: "string \<Rightarrow> nat list"
  signData :: "string \<Rightarrow> string \<Rightarrow> string"
  verifySignature :: "string \<Rightarrow> string \<Rightarrow> string \<Rightarrow> bool"
  stringify :: "Transaction list \<Rightarrow> string"
  parseFloat :: "string \<Rightarrow> int"

text \<open>
  The errors the engine raises: the two \<^verbatim>\<open>throw new Error(...)\<close> of
  \<^verbatim>\<open>addTransaction\<close> (\<open>MissingField\<close> for "Transaction must include sender and
  recipient", \<open>MissingSignature\<close> for "No signature in transaction"), and the
  \<^verbatim>\<open>TypeError\<close> of reading a property of \<^verbatim>\<open>undefined\<close>.
\<close>

datatype error = MissingField | MissingSignature | TypeError

definition SYSTEM :: string where
  "SYSTEM = ''SYSTEM''"

definition SYSTEM_REWARD :: string where
  "SYSTEM_REWARD = ''SYSTEM_REWARD''"

subsection \<open>Numbers as strings\<close>

text \<open>What \<^verbatim>\<open>+\<close> between a string and an integer-valued number appends: the decimal digits.\<close>

fun nat_str :: "nat \<Rightarrow> string" where
  "nat_str n = (if n < 10 then [''0123456789'' ! n]
                else nat_str (n div 10) @ [''0123456789'' ! (n mod 10)])"

declare nat_str.simps [simp del]

definition num_str :: "int \<Rightarrow> string" where
  "num_str i = (if i < 0 then CHR ''-'' # nat_str (nat (- i)) else nat_str (nat i))"

subsection \<open>The crypto service\<close>

text \<open>\<^verbatim>\<open>bufferToHex\<close>: two lower-case hexadecimal digits for every byte.\<close>

definition byte_hex :: "nat \<Rightarrow> string" where
  "byte_hex b = [''0123456789abcdef'' ! ((b div 16) mod 16), ''0123456789abcdef'' ! (b mod 16)]"

definition bufferToHex :: "nat list \<Rightarrow> string" where
  "bufferToHex buffer = concat (map byte_hex buffer)"

definition sha256 :: "platform \<Rightarrow> string \<Rightarrow> string" where
  "sha256 P data = bufferToHex (subtle_digest P data)"

subsection \<open>The engine\<close>

definition calculateHash ::
  "platform \<Rightarrow> int \<Rightarrow> string \<Rightarrow> int \<Rightarrow> Transaction list \<Rightarrow> nat \<Rightarrow> string" where
  "calculateHash P idx prevHash ts txs n =
     sha256 P (num_str idx @ prevHash @ num_str ts @ stringify P txs @ num_str (int n))"

definition createGenesisBlock :: "platform \<Rightarrow> int \<Rightarrow> Block" where
  "createGenesisBlock P now =
     \<lparr>index = 0, block_timestamp = now, transactions = [], previousHash = ''0'',
      hash = calculateHash P 0 ''0'' now [] 0, nonce = 0, block_difficulty = 0\<rparr>"

definition initialize :: "platform \<Rightarrow> int \<Rightarrow> Blockchain \<Rightarrow> Blockchain" where
  "initialize P now this =
     (if length (chain this) = 0 then this\<lparr>chain := chain this @ [createGenesisBlock P now]\<rparr>
      else this)"

text \<open>
  \<^verbatim>\<open>getLatestBlock\<close>: \<^verbatim>\<open>this.chain[this.chain.length - 1]\<close>, which is
  \<^verbatim>\<open>undefined\<close> (\<open>None\<close>) on an empty chain.
\<close>

definition getLatestBlock :: "Blockchain \<Rightarrow> Block option" where
  "getLatestBlock this = (if chain this = [] then None else Some (last (chain this)))"

text \<open>The constructor.\<close>

definition new_Blockchain :: Blockchain where
  "new_Blockchain = \<lparr>chain = [], pendingTransactions = [], difficulty = 2, miningReward = 100\<rparr>"

text \<open>
  \<^verbatim>\<open>addTransaction\<close>: the result is the error thrown, if any, and the engine after the
  call. A string is falsy exactly when it is empty.
\<close>

definition addTransaction :: "Transaction \<Rightarrow> Blockchain \<Rightarrow> error option \<times> Blockchain" where
  "addTransaction transaction this =
     (if sender transaction = [] \<or> recipient transaction = [] then (Some MissingField, this)
      else if signature transaction = [] then (Some MissingSignature, this)
      else (None, this\<lparr>pendingTransactions := pendingTransactions this @ [transaction]\<rparr>))"

subsection \<open>Mining (\<^verbatim>\<open>minePendingTransactions\<close>)\<close>

text \<open>
  The source is an async generator. Its suspended frame holds the locals of the
  function; \<^verbatim>\<open>previousBlock\<close> is only read for its \<^verbatim>\<open>hash\<close>, which no method of the
  engine changes.
\<close>

record frame =
  f_transactions :: "Transaction list"
  f_previousBlock :: Block
  f_index :: int
  f_timestamp :: int
  f_target :: string
  f_nonce :: nat
  f_hash :: string

record ProgressEvent =
  ev_nonce :: nat
  currentHash :: string
  found :: bool

text \<open>
  The generator object: not yet started (with the miner address, and the values that
  \<^verbatim>\<open>crypto.randomUUID()\<close> and the two \<^verbatim>\<open>Date.now()\<close> will return once it runs),
  suspended at the \<^verbatim>\<open>yield\<close> inside the loop, suspended at the last \<^verbatim>\<open>yield\<close> (the
  block is committed), or completed.
\<close>

datatype generator =
    NotStarted string string int int
  | InLoop frame
  | AfterCommit Block
  | Completed

text \<open>What one call of \<^verbatim>\<open>next()\<close> gives: a yielded event, the return value, or a throw.\<close>

datatype step =
    Yield ProgressEvent generator Blockchain
  | Return "Block option"
  | Throw error

definition minePendingTransactions :: "string \<Rightarrow> string \<Rightarrow> int \<Rightarrow> int \<Rightarrow> generator" where
  "minePendingTransactions minerAddress uuid now_reward now_block =
     NotStarted minerAddress uuid now_reward now_block"

definition rewardTx :: "string \<Rightarrow> string \<Rightarrow> int \<Rightarrow> Blockchain \<Rightarrow> Transaction" where
  "rewardTx minerAddress uuid now_reward this =
     \<lparr>tx_id = uuid, sender = ''SYSTEM'', recipient = minerAddress, amount = miningReward this,
      fee = None, timestamp = now_reward, signature = ''SYSTEM_REWARD''\<rparr>"

text \<open>The code after the loop: build the block, push it, empty the pool, yield.\<close>

definition newBlock :: "Blockchain \<Rightarrow> frame \<Rightarrow> Block" where
  "newBlock this f =
     \<lparr>index = f_index f, block_timestamp = f_timestamp f, transactions = f_transactions f,
      previousHash = hash (f_previousBlock f), hash = f_hash f, nonce = f_nonce f,
      block_difficulty = difficulty this\<rparr>"

definition commit :: "Blockchain \<Rightarrow> frame \<Rightarrow> step" where
  "commit this f =
     Yield \<lparr>ev_nonce = f_nonce f, currentHash = f_hash f, found = True\<rparr>
       (AfterCommit (newBlock this f))
       (this\<lparr>chain := chain this @ [newBlock this f], pendingTransactions := []\<rparr>)"

text \<open>
  The proof-of-work loop, from its test to the next \<^verbatim>\<open>yield\<close>. \<^verbatim>\<open>this.difficulty\<close> is
  read at every test, the target string was built once.
\<close>

function pow_loop :: "platform \<Rightarrow> Blockchain \<Rightarrow> frame \<Rightarrow> step" where
  "pow_loop P this f =
     (if take (difficulty this) (f_hash f) \<noteq> f_target f then
        (let n = f_nonce f + 1;
             h = calculateHash P (f_index f) (hash (f_previousBlock f)) (f_timestamp f)
                   (f_transactions f) n;
             f' = f\<lparr>f_nonce := n, f_hash := h\<rparr>
         in if n mod 500 = 0
            then Yield \<lparr>ev_nonce = n, currentHash = h, found = False\<rparr> (InLoop f') this
            else pow_loop P this f')
      else commit this f)"
  by pat_completeness auto
termination
  by (relation "measure (\<lambda>(P, this, f). 499 - f_nonce f mod 500)") (auto simp: mod_Suc)

declare pow_loop.simps [simp del]

text \<open>One call of \<^verbatim>\<open>next()\<close> on the generator.\<close>

definition gen_next :: "platform \<Rightarrow> generator \<Rightarrow> Blockchain \<Rightarrow> step" where
  "gen_next P g this =
     (case g of
        NotStarted minerAddress uuid now_reward now_block \<Rightarrow>
          (let txs = pendingTransactions this @ [rewardTx minerAddress uuid now_reward this]
           in case getLatestBlock this of
                None \<Rightarrow> Throw TypeError
              | Some previousBlock \<Rightarrow>
                  (let idx = index previousBlock + 1;
                       h = calculateHash P idx (hash previousBlock) now_block txs 0
                   in pow_loop P this
                        \<lparr>f_transactions = txs, f_previousBlock = previousBlock, f_index = idx,
                         f_timestamp = now_block,
                         f_target = replicate (difficulty this) (CHR ''0''),
                         f_nonce = 0, f_hash = h\<rparr>))
      | InLoop f \<Rightarrow> pow_loop P this f
      | AfterCommit b \<Rightarrow> Return (Some b)
      | Completed \<Rightarrow> Return None)"

text \<open>
  The caller's loop (\<^verbatim>\<open>mineBlock\<close> in \<^verbatim>\<open>src/App.tsx\<close>): call \<^verbatim>\<open>next()\<close> until the
  generator is done. The search has no bound, so the run is a partial function: \<open>None\<close>
  is a run that never ends.
\<close>

partial_function (option) run_miner ::
  "platform \<Rightarrow> generator \<Rightarrow> Blockchain \<Rightarrow> ((error + Block option) \<times> Blockchain) option" where
  "run_miner P g this =
     (case gen_next P g this of
        Yield ev g' this' \<Rightarrow> run_miner P g' this'
      | Return r \<Rightarrow> Some (Inr r, this)
      | Throw e \<Rightarrow> Some (Inl e, this))"

text \<open>
  Cancelling. \<^verbatim>\<open>return()\<close> on a generator runs no more of its body (the function has
  no \<^verbatim>\<open>finally\<close>) and leaves it completed. \<open>cancel_after k\<close> is a caller that takes
  \<open>k\<close> progress events and then abandons the search: the result is the generator and
  the engine at that moment, \<open>None\<close> when the generator did not stay in the search for
  \<open>k\<close> events (it committed, returned or threw).
\<close>

definition gen_return :: "generator \<Rightarrow> generator" where
  "gen_return g = Completed"

fun cancel_after ::
  "platform \<Rightarrow> nat \<Rightarrow> generator \<Rightarrow> Blockchain \<Rightarrow> (generator \<times> Blockchain) option" where
  "cancel_after P 0 g this = Some (gen_return g, this)"
| "cancel_after P (Suc k) g this =
     (case gen_next P g this of
        Yield ev g' this' \<Rightarrow> (if found ev then None else cancel_after P k g' this')
      | Return r \<Rightarrow> None
      | Throw e \<Rightarrow> None)"

subsection \<open>Validation (\<^verbatim>\<open>isChainValid\<close>)\<close>

record validity =
  isValid :: bool
  errorBlockIndex :: int

definition dataToVerify :: "Transaction \<Rightarrow> string" where
  "dataToVerify tx = sender tx @ recipient tx @ num_str (amount tx) @ num_str (timestamp tx)"

text \<open>The inner loop over a block's transactions; \<open>False\<close> is its early return.\<close>

fun verify_transactions :: "platform \<Rightarrow> Transaction list \<Rightarrow> bool" where
  "verify_transactions P [] = True"
| "verify_transactions P (tx # txs) =
     (if sender tx = ''SYSTEM'' then verify_transactions P txs
      else if \<not> verifySignature P (sender tx) (signature tx) (dataToVerify tx) then False
      else verify_transactions P txs)"

text \<open>The outer loop, from index \<open>i\<close>.\<close>

function validate_from :: "platform \<Rightarrow> Block list \<Rightarrow> nat \<Rightarrow> validity" where
  "validate_from P c i =
     (if i < length c then
        (let currentBlock = c ! i; previousBlock = c ! (i - 1)
         in if previousHash currentBlock \<noteq> hash previousBlock
            then \<lparr>isValid = False, errorBlockIndex = int i\<rparr>
            else if \<not> verify_transactions P (transactions currentBlock)
            then \<lparr>isValid = False, errorBlockIndex = int i\<rparr>
            else if hash currentBlock \<noteq>
                      calculateHash P (index currentBlock) (previousHash currentBlock)
                        (block_timestamp currentBlock) (transactions currentBlock)
                        (nonce currentBlock)
            then \<lparr>isValid = False, errorBlockIndex = int i\<rparr>
            else validate_from P c (i + 1))
      else \<lparr>isValid = True, errorBlockIndex = - 1\<rparr>)"
  by pat_completeness auto
termination
  by (relation "measure (\<lambda>(P, c, i). length c - i)") auto

declare validate_from.simps [simp del]

definition isChainValid :: "platform \<Rightarrow> Blockchain \<Rightarrow> validity" where
  "isChainValid P this = validate_from P (chain this) 1"

subsection \<open>Balances (\<^verbatim>\<open>getBalanceOfAddress\<close>)\<close>

definition apply_committed :: "string \<Rightarrow> Transaction \<Rightarrow> int \<Rightarrow> int" where
  "apply_committed address tx balance =
     (let balance1 = (if sender tx = address then balance - amount tx else balance)
      in if recipient tx = address then balance1 + amount tx else balance1)"

definition apply_pending :: "string \<Rightarrow> Transaction \<Rightarrow> int \<Rightarrow> int" where
  "apply_pending address tx balance =
     (if sender tx = address then balance - amount tx else balance)"

definition getBalanceOfAddress :: "string \<Rightarrow> Blockchain \<Rightarrow> int" where
  "getBalanceOfAddress address this =
     fold (apply_pending address) (pendingTransactions this)
       (fold (\<lambda>block. fold (apply_committed address) (transactions block)) (chain this) 0)"

subsection \<open>Simulation methods\<close>

definition setDifficulty :: "nat \<Rightarrow> Blockchain \<Rightarrow> Blockchain" where
  "setDifficulty diff this = this\<lparr>difficulty := diff\<rparr>"


definition fake_transaction :: "int \<Rightarrow> Transaction" where
  "fake_transaction now =
     \<lparr>tx_id = ''FAKE'', sender = ''HACKER'', recipient = ''HACKER'', amount = 1000000,
      fee = None, timestamp = now, signature = ''FAKE_SIG''\<rparr>"

text \<open>What \<^verbatim>\<open>corruptBlock\<close> does to the transaction array of the block it is given.\<close>

definition corrupt_transactions :: "int \<Rightarrow> Transaction list \<Rightarrow> Transaction list" where
  "corrupt_transactions now txs =
     (if length txs > 0 then txs[0 := (txs ! 0)\<lparr>amount := 999999999\<rparr>]
      else txs @ [fake_transaction now])"

definition corruptBlock :: "int \<Rightarrow> int \<Rightarrow> Blockchain \<Rightarrow> Blockchain" where
  "corruptBlock now idx this =
     (if idx \<ge> 0 \<and> idx < int (length (chain this)) then
        this\<lparr>chain := (chain this)[nat idx :=
                (chain this ! nat idx)\<lparr>transactions :=
                   corrupt_transactions now (transactions (chain this ! nat idx))\<rparr>]\<rparr>
      else this)"

subsection \<open>The wallet's signing paths\<close>

record WalletKeys =
  publicKeyPem :: string
  privateKey :: string

text \<open>
  \<^verbatim>\<open>confirmSend\<close> (\<^verbatim>\<open>src/components/WalletView.tsx\<close>): the string it signs, and the
  transaction it hands to \<^verbatim>\<open>onSendTransaction\<close>; \<open>None\<close> is its early return.
\<close>

definition confirmSend_dataToSign ::
  "platform \<Rightarrow> WalletKeys \<Rightarrow> string \<Rightarrow> string \<Rightarrow> string \<Rightarrow> int \<Rightarrow> string" where
  "confirmSend_dataToSign P wallet rcpt amt fe now =
     publicKeyPem wallet @ rcpt @ num_str (parseFloat P amt) @ num_str (parseFloat P fe)
       @ num_str now"

definition confirmSend ::
  "platform \<Rightarrow> WalletKeys option \<Rightarrow> string \<Rightarrow> string \<Rightarrow> string \<Rightarrow> int \<Rightarrow> string
     \<Rightarrow> Transaction option" where
  "confirmSend P wallet rcpt amt fe now uuid =
     (case wallet of
        None \<Rightarrow> None
      | Some w \<Rightarrow>
          if amt = [] \<or> rcpt = [] \<or> fe = [] then None
          else Some \<lparr>tx_id = uuid, sender = publicKeyPem w, recipient = rcpt,
                     amount = parseFloat P amt, fee = Some (parseFloat P fe), timestamp = now,
                     signature = signData P (privateKey w)
                                   (confirmSend_dataToSign P w rcpt amt fe now)\<rparr>)"

text \<open>
  \<^verbatim>\<open>handleSend\<close> (\<^verbatim>\<open>src/unnamed/part_000\<close>), the signing path of the wallet view
  without a fee.
\<close>

definition handleSend_dataToSign ::
  "platform \<Rightarrow> WalletKeys \<Rightarrow> string \<Rightarrow> string \<Rightarrow> int \<Rightarrow> string" where
  "handleSend_dataToSign P wallet rcpt amt now =
     publicKeyPem wallet @ rcpt @ num_str (parseFloat P amt) @ num_str now"

definition handleSend ::
  "platform \<Rightarrow> WalletKeys option \<Rightarrow> string \<Rightarrow> string \<Rightarrow> int \<Rightarrow> string \<Rightarrow> Transaction option" where
  "handleSend P wallet rcpt amt now uuid =
     (case wallet of
        None \<Rightarrow> None
      | Some w \<Rightarrow>
          if amt = [] \<or> rcpt = [] then None
          else Some \<lparr>tx_id = uuid, sender = publicKeyPem w, recipient = rcpt,
                     amount = parseFloat P amt, fee = None, timestamp = now,
                     signature = signData P (privateKey w)
                                   (handleSend_dataToSign P w rcpt amt now)\<rparr>)"

subsection \<open>A concrete platform for running the model\<close>

text \<open>
  The theorems below hold for every platform. To run the model on concrete inputs the
  platform is instantiated by small stand-ins: a two-byte digest whose first byte is
  zero exactly when the data ends in the digit 3 (so a nonce search succeeds at nonce 3)
  and whose second byte is a checksum of the data; a signature scheme in which the
  private key \<open>k\<close>\<^emph>\<open>name\<close> belongs to the public key \<open>p\<close>\<^emph>\<open>name\<close> and a signature
  verifies exactly for the signed data; a serialisation that lists the fields of every
  transaction; and a \<^verbatim>\<open>parseFloat\<close> that reads decimal digits.
\<close>

definition demo_digest :: "string \<Rightarrow> nat list" where
  "demo_digest s =
     [if s \<noteq> [] \<and> last s = CHR ''3'' then 0 else 255,
      sum_list (map of_char s) mod 256]"

definition demo_signData :: "string \<Rightarrow> string \<Rightarrow> string" where
  "demo_signData key data = ''sig:'' @ drop 1 key @ '':'' @ data"

definition demo_verifySignature :: "string \<Rightarrow> string \<Rightarrow> string \<Rightarrow> bool" where
  "demo_verifySignature pub sig data =
     (take 1 pub = ''p'' \<and> sig = ''sig:'' @ drop 1 pub @ '':'' @ data)"

definition demo_tx_json :: "Transaction \<Rightarrow> string" where
  "demo_tx_json tx =
     ''{'' @ tx_id tx @ '','' @ sender tx @ '','' @ recipient tx @ '','' @ num_str (amount tx)
       @ '','' @ (case fee tx of None \<Rightarrow> [] | Some f \<Rightarrow> num_str f)
       @ '','' @ num_str (timestamp tx) @ '','' @ signature tx @ ''}''"

definition demo_stringify :: "Transaction list \<Rightarrow> string" where
  "demo_stringify txs = ''['' @ concat (map demo_tx_json txs) @ '']''"

definition demo_parseFloat :: "string \<Rightarrow> int" where
  "demo_parseFloat s = int (fold (\<lambda>c n. 10 * n + (of_char c - 48)) s 0)"

definition demo :: platform where
  "demo = \<lparr>subtle_digest = demo_digest, signData = demo_signData,
           verifySignature = demo_verifySignature, stringify = demo_stringify,
           parseFloat = demo_parseFloat\<rparr>"

text \<open>A wallet, and the engine after \<^verbatim>\<open>initialize()\<close> at time 1000.\<close>

definition alice :: WalletKeys where
  "alice = \<lparr>publicKeyPem = ''palice'', privateKey = ''kalice''\<rparr>"

definition engine0 :: Blockchain where
  "engine0 = initialize demo 1000 new_Blockchain"

subsection \<open>The validator's checks, as the specification words them\<close>

text \<open>
  Some transaction of the block whose sender is not the SYSTEM sentinel fails signature
  verification.
\<close>

definition signature_fails :: "platform \<Rightarrow> Block \<Rightarrow> bool" where
  "signature_fails P b =
     (\<exists>tx \<in> set (transactions b).
        sender tx \<noteq> ''SYSTEM'' \<and>
        \<not> verifySignature P (sender tx) (signature tx) (dataToVerify tx))"

text \<open>
  Block \<open>i\<close> of chain \<open>c\<close> fails: (a) its \<^verbatim>\<open>previousHash\<close> differs from the hash of
  block \<open>i - 1\<close>, or (b) a signature fails, or (c) the hash recomputed from its index,
  previousHash, timestamp, transactions and nonce differs from the stored one.
\<close>

definition block_fails :: "platform \<Rightarrow> Block list \<Rightarrow> nat \<Rightarrow> bool" where
  "block_fails P c i =
     (previousHash (c ! i) \<noteq> hash (c ! (i - 1))
      \<or> signature_fails P (c ! i)
      \<or> calculateHash P (index (c ! i)) (previousHash (c ! i)) (block_timestamp (c ! i))
           (transactions (c ! i)) (nonce (c ! i)) \<noteq> hash (c ! i))"

subsection \<open>The search, as the specification words it\<close>

text \<open>
  The candidate transaction list of a mining operation, the digest of the candidate
  block at a nonce, and "the first \<open>d\<close> characters of \<open>h\<close> are all \<open>0\<close>".
\<close>

definition candidate_transactions :: "string \<Rightarrow> string \<Rightarrow> int \<Rightarrow> Blockchain \<Rightarrow> Transaction list" where
  "candidate_transactions minerAddress uuid now_reward this =
     pendingTransactions this @ [rewardTx minerAddress uuid now_reward this]"

definition candidate_hash ::
  "platform \<Rightarrow> string \<Rightarrow> string \<Rightarrow> int \<Rightarrow> int \<Rightarrow> Blockchain \<Rightarrow> nat \<Rightarrow> string" where
  "candidate_hash P minerAddress uuid now_reward now_block this n =
     calculateHash P (index (last (chain this)) + 1) (hash (last (chain this))) now_block
       (candidate_transactions minerAddress uuid now_reward this) n"

definition leading_zeros :: "nat \<Rightarrow> string \<Rightarrow> bool" where
  "leading_zeros d h \<longleftrightarrow> d \<le> length h \<and> (\<forall>i<d. h ! i = CHR ''0'')"

text \<open>Auxiliary notions for the proofs: the frame of a search at nonce \<open>n\<close>.\<close>

definition frame_hash :: "platform \<Rightarrow> frame \<Rightarrow> nat \<Rightarrow> string" where
  "frame_hash P f n =
     calculateHash P (f_index f) (hash (f_previousBlock f)) (f_timestamp f) (f_transactions f) n"

definition frame_at :: "platform \<Rightarrow> frame \<Rightarrow> nat \<Rightarrow> frame" where
  "frame_at P f n = f\<lparr>f_nonce := n, f_hash := frame_hash P f n\<rparr>"

definition frame_ok :: "platform \<Rightarrow> Blockchain \<Rightarrow> frame \<Rightarrow> nat \<Rightarrow> bool" where
  "frame_ok P this f n \<longleftrightarrow> take (difficulty this) (frame_hash P f n) = f_target f"

definition first_frame :: "platform \<Rightarrow> string \<Rightarrow> string \<Rightarrow> int \<Rightarrow> int \<Rightarrow> Blockchain \<Rightarrow> frame" where
  "first_frame P minerAddress uuid now_reward now_block this =
     \<lparr>f_transactions = candidate_transactions minerAddress uuid now_reward this,
      f_previousBlock = last (chain this), f_index = index (last (chain this)) + 1,
      f_timestamp = now_block, f_target = replicate (difficulty this) (CHR ''0''),
      f_nonce = 0,
      f_hash = candidate_hash P minerAddress uuid now_reward now_block this 0\<rparr>"

text \<open>The block a search commits when it stops at nonce \<open>n\<close>.\<close>

definition mined_block ::
  "platform \<Rightarrow> string \<Rightarrow> string \<Rightarrow> int \<Rightarrow> int \<Rightarrow> Blockchain \<Rightarrow> nat \<Rightarrow> Block" where
  "mined_block P minerAddress uuid now_reward now_block this n =
     \<lparr>index = index (last (chain this)) + 1, block_timestamp = now_block,
      transactions = candidate_transactions minerAddress uuid now_reward this,
      previousHash = hash (last (chain this)),
      hash = candidate_hash P minerAddress uuid now_reward now_block this n,
      nonce = n, block_difficulty = difficulty this\<rparr>"

subsection \<open>Balances, as the specification words them\<close>

text \<open>
  What a transaction credits to and debits from an address, the committed transactions
  in chain order, and the balance as the sum the specification describes (without fees).
\<close>

definition credit :: "string \<Rightarrow> Transaction \<Rightarrow> int" where
  "credit a tx = (if recipient tx = a then amount tx else 0)"

definition debit :: "string \<Rightarrow> Transaction \<Rightarrow> int" where
  "debit a tx = (if sender tx = a then amount tx else 0)"

definition committed_transactions :: "Blockchain \<Rightarrow> Transaction list" where
  "committed_transactions this = concat (map transactions (chain this))"

definition spec_balance :: "string \<Rightarrow> Blockchain \<Rightarrow> int" where
  "spec_balance a this =
     (\<Sum>tx\<leftarrow>committed_transactions this. credit a tx - debit a tx)
       - (\<Sum>tx\<leftarrow>pendingTransactions this. debit a tx)"

text \<open>The same sum when a fee, where present, is debited from the sender as well.\<close>

definition debit_with_fee :: "string \<Rightarrow> Transaction \<Rightarrow> int" where
  "debit_with_fee a tx =
     (if sender tx = a then amount tx + (case fee tx of None \<Rightarrow> 0 | Some f \<Rightarrow> f) else 0)"

definition spec_balance_with_fee :: "string \<Rightarrow> Blockchain \<Rightarrow> int" where
  "spec_balance_with_fee a this =
     (\<Sum>tx\<leftarrow>committed_transactions this. credit a tx - debit_with_fee a tx)
       - (\<Sum>tx\<leftarrow>pendingTransactions this. debit_with_fee a tx)"

subsection \<open>Concrete transactions, blocks and engines\<close>

text \<open>
  \<open>tx1\<close> is what \<^verbatim>\<open>handleSend\<close> builds when alice sends 10 to bob at time 1500, \<open>tx2\<close>
  what \<^verbatim>\<open>confirmSend\<close> builds for the same transfer with a fee of 1.
\<close>

definition tx1 :: Transaction where
  "tx1 = \<lparr>tx_id = ''t1'', sender = ''palice'', recipient = ''pbob'', amount = 10, fee = None,
          timestamp = 1500, signature = ''sig:alice:palicepbob101500''\<rparr>"

definition tx2 :: Transaction where
  "tx2 = \<lparr>tx_id = ''t2'', sender = ''palice'', recipient = ''pbob'', amount = 10, fee = Some 1,
          timestamp = 1500, signature = ''sig:alice:palicepbob1011500''\<rparr>"

definition genesis0 :: Block where
  "genesis0 = \<lparr>index = 0, block_timestamp = 1000, transactions = [], previousHash = ''0'',
               hash = ''ff09'', nonce = 0, block_difficulty = 0\<rparr>"

definition reward_carol :: Transaction where
  "reward_carol = \<lparr>tx_id = ''r1'', sender = ''SYSTEM'', recipient = ''pcarol'', amount = 100,
                   fee = None, timestamp = 2000, signature = ''SYSTEM_REWARD''\<rparr>"

text \<open>The block carol mines at time 2001 from the pool \<open>[tx1]\<close>, and the one from \<open>[tx2]\<close>.\<close>

definition block_tx1 :: Block where
  "block_tx1 = \<lparr>index = 1, block_timestamp = 2001, transactions = [tx1, reward_carol],
                previousHash = ''ff09'', hash = ''0043'', nonce = 3, block_difficulty = 2\<rparr>"

definition block_tx2 :: Block where
  "block_tx2 = \<lparr>index = 1, block_timestamp = 2001, transactions = [tx2, reward_carol],
                previousHash = ''ff09'', hash = ''00a6'', nonce = 3, block_difficulty = 2\<rparr>"

text \<open>The block carol mines from the empty pool.\<close>

definition block_empty :: Block where
  "block_empty = \<lparr>index = 1, block_timestamp = 2001, transactions = [reward_carol],
                  previousHash = ''ff09'', hash = ''0079'', nonce = 3, block_difficulty = 2\<rparr>"

definition engine_of :: "Block list \<Rightarrow> Transaction list \<Rightarrow> Blockchain" where
  "engine_of c pool = \<lparr>chain = c, pendingTransactions = pool, difficulty = 2, miningReward = 100\<rparr>"

definition carol_mines :: generator where
  "carol_mines = minePendingTransactions ''pcarol'' ''r1'' 2000 2001"

text \<open>
  A transaction nobody signed: its sender is the literal \<^verbatim>\<open>'SYSTEM'\<close>. \<open>block_forged\<close>
  is the block carol mines from the pool that holds it.
\<close>

definition forged :: Transaction where
  "forged = \<lparr>tx_id = ''f1'', sender = ''SYSTEM'', recipient = ''pmallory'', amount = 1000000,
             fee = None, timestamp = 1600, signature = ''x''\<rparr>"

definition block_forged :: Block where
  "block_forged = \<lparr>index = 1, block_timestamp = 2001, transactions = [forged, reward_carol],
                   previousHash = ''ff09'', hash = ''00f5'', nonce = 3, block_difficulty = 2\<rparr>"

subsection \<open>Integer amounts\<close>

text \<open>
  The model's integers are the program's numbers where the program computes exactly:
  on integers of magnitude at most \<^verbatim>\<open>Number.MAX_SAFE_INTEGER\<close>. \<open>volume\<close> bounds every
  sum of amounts taken with either sign; \<open>exact_amounts\<close> says that the amounts on the
  chain and in the pool, together with the reward, stay within that range, so that every
  sum \<^verbatim>\<open>getBalanceOfAddress\<close> forms before and after a mining operation is exact.
\<close>

definition max_safe :: int where
  "max_safe = 9007199254740991"

definition volume :: "Transaction list \<Rightarrow> int" where
  "volume txs = (\<Sum>tx\<leftarrow>txs. \<bar>amount tx\<bar>)"

definition exact_amounts :: "Blockchain \<Rightarrow> bool" where
  "exact_amounts this \<longleftrightarrow>
     volume (committed_transactions this) + volume (pendingTransactions this)
       + \<bar>miningReward this\<bar> \<le> max_safe"

subsection \<open>Platforms without collisions\<close>













section \<open>Verified properties\<close>

subsection \<open>Evaluating the concrete platform\<close>

lemmas demo_simps =
  demo_def demo_digest_def demo_signData_def demo_verifySignature_def demo_tx_json_def
  demo_stringify_def demo_parseFloat_def calculateHash_def sha256_def bufferToHex_def
  byte_hex_def num_str_def nat_str.simps

subsection \<open>Submission\<close>

text \<open>
  Claim C5. \<^verbatim>\<open>addTransaction\<close> rejects with \<open>MissingField\<close> when the sender or the
  recipient is empty, otherwise with \<open>MissingSignature\<close> when the signature is empty, and
  a rejection leaves the engine, so the pool, as it was. Every other transaction is
  appended at the end of the pool: the decision reads nothing but these three fields (no
  signature verification, no look at ids, balances, the pool or the chain). Hence a
  transaction that was accepted once is accepted again in every later state of the
  engine, also after it has been mined.
\<close>

theorem addTransaction_spec:
  "(sender tx = [] \<or> recipient tx = [] \<longrightarrow>
      addTransaction tx this = (Some MissingField, this)) \<and>
   (sender tx \<noteq> [] \<and> recipient tx \<noteq> [] \<and> signature tx = [] \<longrightarrow>
      addTransaction tx this = (Some MissingSignature, this)) \<and>
   (sender tx \<noteq> [] \<and> recipient tx \<noteq> [] \<and> signature tx \<noteq> [] \<longrightarrow>
      addTransaction tx this =
        (None, this\<lparr>pendingTransactions := pendingTransactions this @ [tx]\<rparr>)) \<and>
   (fst (addTransaction tx this) = None \<longrightarrow>
      addTransaction tx later =
        (None, later\<lparr>pendingTransactions := pendingTransactions later @ [tx]\<rparr>))"
  by (simp add: addTransaction_def)

lemma engine0_eq: "engine0 = engine_of [genesis0] []"
  by (simp add: engine0_def initialize_def new_Blockchain_def createGenesisBlock_def
      engine_of_def genesis0_def demo_simps)

theorem addTransaction_spec_witness:
  "addTransaction (tx1\<lparr>recipient := []\<rparr>) (engine_of [genesis0] []) =
     (Some MissingField, engine_of [genesis0] []) \<and>
   addTransaction (tx1\<lparr>signature := []\<rparr>) (engine_of [genesis0] []) =
     (Some MissingSignature, engine_of [genesis0] []) \<and>
   addTransaction tx1 (engine_of [genesis0] []) = (None, engine_of [genesis0] [tx1]) \<and>
   addTransaction tx1 (engine_of [genesis0, block_tx1] []) =
     (None, engine_of [genesis0, block_tx1] [tx1])"
  using addTransaction_spec [of "tx1\<lparr>recipient := []\<rparr>" "engine_of [genesis0] []"]
    addTransaction_spec [of "tx1\<lparr>signature := []\<rparr>" "engine_of [genesis0] []"]
    addTransaction_spec [of tx1 "engine_of [genesis0] []" "engine_of [genesis0, block_tx1] []"]
  by (simp add: tx1_def engine_of_def)

subsection \<open>Validation\<close>

lemma verify_transactions_iff:
  "verify_transactions P txs \<longleftrightarrow>
     \<not> (\<exists>tx \<in> set txs. sender tx \<noteq> ''SYSTEM''
           \<and> \<not> verifySignature P (sender tx) (signature tx) (dataToVerify tx))"
  by (induction txs) auto

lemma validate_from_step:
  "i < length c \<Longrightarrow>
     validate_from P c i =
       (if block_fails P c i then \<lparr>isValid = False, errorBlockIndex = int i\<rparr>
        else validate_from P c (Suc i))"
  by (subst validate_from.simps)
     (auto simp: block_fails_def signature_fails_def verify_transactions_iff Let_def)

lemma validate_from_end:
  "\<not> i < length c \<Longrightarrow> validate_from P c i = \<lparr>isValid = True, errorBlockIndex = - 1\<rparr>"
  by (subst validate_from.simps) simp

lemma validate_from_invalid:
  "validate_from P c i = \<lparr>isValid = False, errorBlockIndex = int k\<rparr> \<longleftrightarrow>
     i \<le> k \<and> k < length c \<and> block_fails P c k \<and>
     (\<forall>j. i \<le> j \<and> j < k \<longrightarrow> \<not> block_fails P c j)"
proof (induction "length c - i" arbitrary: i)
  case 0
  then show ?case by (auto simp: validate_from_end)
next
  case (Suc n)
  then have lt: "i < length c" and n: "n = length c - Suc i" by auto
  show ?case
  proof (cases "block_fails P c i")
    case True
    then show ?thesis using lt
      by (auto simp: validate_from_step intro: le_neq_implies_less dest: le_antisym)
  next
    case False
    have "(\<forall>j. i \<le> j \<and> j < k \<longrightarrow> \<not> block_fails P c j) \<longleftrightarrow>
          (\<forall>j. Suc i \<le> j \<and> j < k \<longrightarrow> \<not> block_fails P c j)"
      using False by (metis Suc_leI le_neq_implies_less Suc_leD)
    moreover have "i \<le> k \<and> block_fails P c k \<longleftrightarrow> Suc i \<le> k \<and> block_fails P c k"
      using False by (metis Suc_leI le_neq_implies_less Suc_leD)
    ultimately show ?thesis
      using Suc.hyps(1)[OF n] False lt by (simp add: validate_from_step) blast
  qed
qed

lemma validate_from_valid:
  "validate_from P c i = \<lparr>isValid = True, errorBlockIndex = - 1\<rparr> \<longleftrightarrow>
     (\<forall>j. i \<le> j \<and> j < length c \<longrightarrow> \<not> block_fails P c j)"
proof (induction "length c - i" arbitrary: i)
  case 0
  then show ?case by (auto simp: validate_from_end)
next
  case (Suc n)
  then have lt: "i < length c" and n: "n = length c - Suc i" by auto
  show ?case
  proof (cases "block_fails P c i")
    case True
    then show ?thesis using lt by (auto simp: validate_from_step)
  next
    case False
    have "(\<forall>j. i \<le> j \<and> j < length c \<longrightarrow> \<not> block_fails P c j) \<longleftrightarrow>
          (\<forall>j. Suc i \<le> j \<and> j < length c \<longrightarrow> \<not> block_fails P c j)"
      using False by (metis Suc_leI le_neq_implies_less Suc_leD)
    then show ?thesis
      using Suc.hyps(1)[OF n] False lt by (simp add: validate_from_step)
  qed
qed

text \<open>The verdict on blocks \<open>i..\<close> reads the chain only through \<open>block_fails\<close>.\<close>

lemma validate_from_cong:
  "\<lbrakk>length c' = length c; \<forall>j. i \<le> j \<and> j < length c \<longrightarrow> block_fails P c' j = block_fails P c j\<rbrakk>
   \<Longrightarrow> validate_from P c' i = validate_from P c i"
proof (induction "length c - i" arbitrary: i)
  case 0
  then show ?case by (simp add: validate_from_end)
next
  case (Suc n)
  then have lt: "i < length c" and n: "n = length c - Suc i" by auto
  have "validate_from P c' (Suc i) = validate_from P c (Suc i)"
    using Suc.prems by (intro Suc.hyps(1)[OF n]) auto
  then show ?case using lt Suc.prems by (simp add: validate_from_step)
qed

lemma validate_from_total:
  "validate_from P c i = \<lparr>isValid = True, errorBlockIndex = - 1\<rparr> \<or>
   (\<exists>k. validate_from P c i = \<lparr>isValid = False, errorBlockIndex = int k\<rparr>)"
proof (induction "length c - i" arbitrary: i)
  case 0
  then show ?case by (simp add: validate_from_end)
next
  case (Suc n)
  then have lt: "i < length c" and n: "n = length c - Suc i" by auto
  show ?case using Suc.hyps(1)[OF n] lt by (auto simp: validate_from_step)
qed

lemma block_fails_prefix:
  assumes "j \<le> i" "i < length c"
  shows "block_fails P (take (Suc i) c @ rest) j = block_fails P c j"
proof -
  have "j < length (take (Suc i) c)" "j - 1 < length (take (Suc i) c)"
    using assms by auto
  then have "(take (Suc i) c @ rest) ! j = c ! j" "(take (Suc i) c @ rest) ! (j - 1) = c ! (j - 1)"
    by (simp_all add: nth_append)
  then show ?thesis by (simp add: block_fails_def)
qed

lemma block_fails_genesis:
  "hash g' = hash g \<Longrightarrow> 1 \<le> j \<Longrightarrow> block_fails P (g' # bs) j = block_fails P (g # bs) j"
  by (cases j; cases "j - 1") (auto simp: block_fails_def)

text \<open>
  Claim C1. \<^verbatim>\<open>isChainValid\<close> returns \<open>{false, i}\<close> exactly for the first index \<open>i\<close> in
  \<open>1..N-1\<close> whose block fails (a) the link to its predecessor's hash, (b) the signature
  of a transaction not sent by SYSTEM, or (c) the recomputed hash; it returns
  \<open>{true, -1}\<close> exactly when no block in \<open>1..N-1\<close> fails, and it always returns one of
  the two. It stops at the first failure: the blocks after \<open>i\<close> may be replaced by
  anything without changing the verdict. Block 0 is never examined: only its stored hash
  is read (by the link check of block 1), so any genesis block with that hash gives the
  same verdict. Within a block the model keeps the source's order of the three checks;
  all three give the same result.
\<close>

theorem isChainValid_spec:
  "(isChainValid P this = \<lparr>isValid = False, errorBlockIndex = int i\<rparr> \<longleftrightarrow>
      1 \<le> i \<and> i < length (chain this) \<and> block_fails P (chain this) i \<and>
      (\<forall>j. 1 \<le> j \<and> j < i \<longrightarrow> \<not> block_fails P (chain this) j)) \<and>
   (isChainValid P this = \<lparr>isValid = True, errorBlockIndex = - 1\<rparr> \<longleftrightarrow>
      (\<forall>j. 1 \<le> j \<and> j < length (chain this) \<longrightarrow> \<not> block_fails P (chain this) j)) \<and>
   (isChainValid P this = \<lparr>isValid = True, errorBlockIndex = - 1\<rparr> \<or>
      (\<exists>k. isChainValid P this = \<lparr>isValid = False, errorBlockIndex = int k\<rparr>)) \<and>
   (isChainValid P this = \<lparr>isValid = False, errorBlockIndex = int i\<rparr> \<longrightarrow>
      isChainValid P (this\<lparr>chain := take (Suc i) (chain this) @ rest\<rparr>) =
        \<lparr>isValid = False, errorBlockIndex = int i\<rparr>) \<and>
   (hash g' = hash g \<longrightarrow>
      isChainValid P (this\<lparr>chain := g' # bs\<rparr>) = isChainValid P (this\<lparr>chain := g # bs\<rparr>))"
proof (intro conjI impI)
  show "isChainValid P this = \<lparr>isValid = False, errorBlockIndex = int i\<rparr> \<longleftrightarrow>
      1 \<le> i \<and> i < length (chain this) \<and> block_fails P (chain this) i \<and>
      (\<forall>j. 1 \<le> j \<and> j < i \<longrightarrow> \<not> block_fails P (chain this) j)"
    unfolding isChainValid_def by (rule validate_from_invalid)
  show "isChainValid P this = \<lparr>isValid = True, errorBlockIndex = - 1\<rparr> \<longleftrightarrow>
      (\<forall>j. 1 \<le> j \<and> j < length (chain this) \<longrightarrow> \<not> block_fails P (chain this) j)"
    unfolding isChainValid_def by (rule validate_from_valid)
  show "isChainValid P this = \<lparr>isValid = True, errorBlockIndex = - 1\<rparr> \<or>
      (\<exists>k. isChainValid P this = \<lparr>isValid = False, errorBlockIndex = int k\<rparr>)"
    unfolding isChainValid_def by (rule validate_from_total)
next
  assume inv: "isChainValid P this = \<lparr>isValid = False, errorBlockIndex = int i\<rparr>"
  let ?c = "chain this" and ?c' = "take (Suc i) (chain this) @ rest"
  from inv have "validate_from P ?c 1 = \<lparr>isValid = False, errorBlockIndex = int i\<rparr>"
    by (simp add: isChainValid_def)
  then have i: "1 \<le> i \<and> i < length ?c \<and> block_fails P ?c i \<and>
    (\<forall>j. 1 \<le> j \<and> j < i \<longrightarrow> \<not> block_fails P ?c j)"
    by (rule iffD1[OF validate_from_invalid])
  have same: "block_fails P ?c' j = block_fails P ?c j" if "j \<le> i" for j
    using that i by (intro block_fails_prefix) simp_all
  have len: "i < length ?c'" using i by simp
  have "1 \<le> i \<and> i < length ?c' \<and> block_fails P ?c' i \<and>
    (\<forall>j. 1 \<le> j \<and> j < i \<longrightarrow> \<not> block_fails P ?c' j)"
    using i len same by (metis less_imp_le order_refl)
  then have "validate_from P ?c' 1 = \<lparr>isValid = False, errorBlockIndex = int i\<rparr>"
    by (rule iffD2[OF validate_from_invalid])
  then show "isChainValid P (this\<lparr>chain := ?c'\<rparr>) = \<lparr>isValid = False, errorBlockIndex = int i\<rparr>"
    by (simp add: isChainValid_def)
next
  assume "hash g' = hash g"
  then have "\<forall>j. 1 \<le> j \<and> j < length (g # bs) \<longrightarrow>
      block_fails P (g' # bs) j = block_fails P (g # bs) j"
    using block_fails_genesis[of g' g _ P bs] by blast
  then have "validate_from P (g' # bs) 1 = validate_from P (g # bs) 1"
    by (intro validate_from_cong) simp_all
  then show "isChainValid P (this\<lparr>chain := g' # bs\<rparr>) = isChainValid P (this\<lparr>chain := g # bs\<rparr>)"
    by (simp add: isChainValid_def)
qed

subsection \<open>Mining\<close>

lemma frame_hash_at [simp]: "frame_hash P (frame_at P f n) = frame_hash P f"
  by (rule ext) (simp add: frame_hash_def frame_at_def)

lemma frame_at_at [simp]: "frame_at P (frame_at P f n) m = frame_at P f m"
  by (simp add: frame_at_def frame_hash_def)

lemma frame_ok_at [simp]: "frame_ok P this (frame_at P f n) = frame_ok P this f"
  by (rule ext) (simp add: frame_ok_def, simp add: frame_at_def)

lemma pow_loop_hit:
  "frame_ok P this f n \<Longrightarrow> pow_loop P this (frame_at P f n) = commit this (frame_at P f n)"
  by (subst pow_loop.simps) (simp add: frame_ok_def frame_at_def)

lemma pow_loop_miss:
  "\<not> frame_ok P this f n \<Longrightarrow>
     pow_loop P this (frame_at P f n) =
       (if Suc n mod 500 = 0
        then Yield \<lparr>ev_nonce = Suc n, currentHash = frame_hash P f (Suc n), found = False\<rparr>
               (InLoop (frame_at P f (Suc n))) this
        else pow_loop P this (frame_at P f (Suc n)))"
  by (subst pow_loop.simps) (simp add: frame_ok_def frame_at_def Let_def frame_hash_def)

text \<open>A run of misses up to a hit, with no checkpoint on the way.\<close>
lemma pow_loop_commits:
  "\<lbrakk>n0 \<le> n; frame_ok P this f n; \<forall>j. n0 \<le> j \<and> j < n \<longrightarrow> \<not> frame_ok P this f j;
    \<forall>j. n0 < j \<and> j \<le> n \<longrightarrow> j mod 500 \<noteq> 0\<rbrakk>
   \<Longrightarrow> pow_loop P this (frame_at P f n0) = commit this (frame_at P f n)"
proof (induction "n - n0" arbitrary: n0)
  case 0
  then have "n0 = n" by simp
  with 0 show ?case by (simp add: pow_loop_hit)
next
  case (Suc k)
  then have lt: "n0 < n" by simp
  then have miss: "\<not> frame_ok P this f n0" using Suc.prems by simp
  have nz: "Suc n0 mod 500 \<noteq> 0" using Suc.prems(4) lt by (simp add: Suc_leI)
  have "pow_loop P this (frame_at P f (Suc n0)) = commit this (frame_at P f n)"
    using Suc.hyps(2) Suc.prems lt by (intro Suc.hyps(1)) auto
  then show ?case using miss nz by (simp add: pow_loop_miss)
qed

lemma pow_loop_yields:
  "\<lbrakk>n0 < n; n mod 500 = 0; \<forall>j. n0 \<le> j \<and> j < n \<longrightarrow> \<not> frame_ok P this f j;
    \<forall>j. n0 < j \<and> j < n \<longrightarrow> j mod 500 \<noteq> 0\<rbrakk>
   \<Longrightarrow> pow_loop P this (frame_at P f n0) =
         Yield \<lparr>ev_nonce = n, currentHash = frame_hash P f n, found = False\<rparr>
           (InLoop (frame_at P f n)) this"
proof (induction "n - n0" arbitrary: n0)
  case 0
  then show ?case by simp
next
  case (Suc k)
  have miss: "\<not> frame_ok P this f n0" using Suc.prems by simp
  show ?case
  proof (cases "Suc n0 = n")
    case True
    then show ?thesis using miss Suc.prems(2) by (simp add: pow_loop_miss)
  next
    case False
    then have lt: "Suc n0 < n" using Suc.prems(1) by simp
    then have nz: "Suc n0 mod 500 \<noteq> 0" using Suc.prems(4) by simp
    have "pow_loop P this (frame_at P f (Suc n0)) =
         Yield \<lparr>ev_nonce = n, currentHash = frame_hash P f n, found = False\<rparr>
           (InLoop (frame_at P f n)) this"
      using Suc.hyps(2) Suc.prems lt by (intro Suc.hyps(1)) auto
    then show ?thesis using miss nz by (simp add: pow_loop_miss)
  qed
qed

lemma checkpoint_ex: "\<exists>m::nat. n0 < m \<and> m mod 500 = 0"
  by (rule exI[of _ "500 * Suc n0"]) simp

lemma checkpoint_least:
  fixes n0 :: nat
  shows "n0 < (LEAST m. n0 < m \<and> m mod 500 = 0) \<and> (LEAST m. n0 < m \<and> m mod 500 = 0) mod 500 = 0
     \<and> (\<forall>j. n0 < j \<and> j < (LEAST m. n0 < m \<and> m mod 500 = 0) \<longrightarrow> j mod 500 \<noteq> 0)"
proof -
  let ?Q = "\<lambda>m. n0 < m \<and> m mod 500 = 0"
  from checkpoint_ex[of n0] obtain m0 where m0: "?Q m0" by (rule exE)
  have a: "?Q (Least ?Q)" using m0 by (rule LeastI)
  have b: "j mod 500 \<noteq> 0" if j: "n0 < j" "j < Least ?Q" for j
  proof -
    have "\<not> ?Q j" using j(2) by (rule not_less_Least)
    then show ?thesis using j(1) by (simp del: mod_eq_0_iff_dvd)
  qed
  show ?thesis using a b by (intro conjI allI impI) (elim conjE, assumption)+
qed

lemma gen_next_InLoop [simp]: "gen_next P (InLoop f) this = pow_loop P this f"
  by (simp add: gen_next_def)

lemma run_miner_AfterCommit [simp]:
  "run_miner P (AfterCommit b) this = Some (Inr (Some b), this)"
  by (subst run_miner.simps) (simp add: gen_next_def)

lemma run_miner_commit:
  "gen_next P g this = commit this f \<Longrightarrow>
     run_miner P g this =
       Some (Inr (Some (newBlock this f)),
             this\<lparr>chain := chain this @ [newBlock this f], pendingTransactions := []\<rparr>)"
  by (subst run_miner.simps) (simp add: commit_def)

lemma run_miner_yield:
  "gen_next P g this = Yield ev g' this' \<Longrightarrow> run_miner P g this = run_miner P g' this'"
  by (subst run_miner.simps) simp

lemma run_miner_finds:
  "\<lbrakk>n0 \<le> n; frame_ok P this f n; \<forall>j. n0 \<le> j \<and> j < n \<longrightarrow> \<not> frame_ok P this f j\<rbrakk>
   \<Longrightarrow> run_miner P (InLoop (frame_at P f n0)) this =
         Some (Inr (Some (newBlock this (frame_at P f n))),
               this\<lparr>chain := chain this @ [newBlock this (frame_at P f n)],
                    pendingTransactions := []\<rparr>)"
proof (induction "n - n0" arbitrary: n0 rule: less_induct)
  case less
  let ?m = "LEAST m. n0 < m \<and> m mod 500 = 0"
  have m: "n0 < ?m" "?m mod 500 = 0" "\<forall>j. n0 < j \<and> j < ?m \<longrightarrow> j mod 500 \<noteq> 0"
    using checkpoint_least[of n0] by blast+
  show ?case
  proof (cases "?m \<le> n")
    case False
    then have "\<forall>j. n0 < j \<and> j \<le> n \<longrightarrow> j mod 500 \<noteq> 0"
      using m(3) by (meson le_less_trans not_le_imp_less)
    then have "pow_loop P this (frame_at P f n0) = commit this (frame_at P f n)"
      using less.prems by (intro pow_loop_commits) auto
    then show ?thesis by (intro run_miner_commit) simp
  next
    case True
    have "\<forall>j. n0 \<le> j \<and> j < ?m \<longrightarrow> \<not> frame_ok P this f j"
      using less.prems(3) True by (meson less_le_trans)
    then have "pow_loop P this (frame_at P f n0) =
         Yield \<lparr>ev_nonce = ?m, currentHash = frame_hash P f ?m, found = False\<rparr>
           (InLoop (frame_at P f ?m)) this"
      using m by (intro pow_loop_yields) auto
    then have "run_miner P (InLoop (frame_at P f n0)) this =
               run_miner P (InLoop (frame_at P f ?m)) this"
      by (intro run_miner_yield) simp
    moreover have "run_miner P (InLoop (frame_at P f ?m)) this =
         Some (Inr (Some (newBlock this (frame_at P f n))),
               this\<lparr>chain := chain this @ [newBlock this (frame_at P f n)],
                    pendingTransactions := []\<rparr>)"
    proof (rule less.hyps)
      show "n - ?m < n - n0" using m(1) True by simp
      show "?m \<le> n" by (rule True)
      show "frame_ok P this f n" by (rule less.prems(2))
      show "\<forall>j. ?m \<le> j \<and> j < n \<longrightarrow> \<not> frame_ok P this f j"
        using less.prems(3) m(1) by (meson le_trans less_imp_le)
    qed
    ultimately show ?thesis by simp
  qed
qed

lemma run_miner_InLoop_Some:
  assumes "run_miner P g this = Some r"
  shows "\<forall>f n0. g = InLoop (frame_at P f n0) \<longrightarrow> (\<exists>n\<ge>n0. frame_ok P this f n)"
proof -
  let ?Q = "\<lambda>x (r :: (error + Block option) \<times> Blockchain).
     \<forall>f n0. snd (fst x) = InLoop (frame_at (fst (fst x)) f n0) \<longrightarrow>
       (\<exists>n\<ge>n0. frame_ok (fst (fst x)) (snd x) f n)"
  have "?Q ((P, g), this) r"
  proof (rule run_miner.raw_induct[OF _ assms])
    fix run :: "platform \<Rightarrow> generator \<Rightarrow> Blockchain \<Rightarrow> ((error + Block option) \<times> Blockchain) option"
    fix P g this r
    assume IH: "\<And>P g this r. run P g this = Some r \<Longrightarrow> ?Q ((P, g), this) r"
      and st: "(case gen_next P g this of Yield ev g' this' \<Rightarrow> run P g' this'
                | Return r \<Rightarrow> Some (Inr r, this) | Throw e \<Rightarrow> Some (Inl e, this)) = Some r"
    show "?Q ((P, g), this) r"
    proof (simp, intro allI impI)
      fix f n0
      assume g: "g = InLoop (frame_at P f n0)"
      show "\<exists>n\<ge>n0. frame_ok P this f n"
      proof (rule ccontr)
        assume "\<not> (\<exists>n\<ge>n0. frame_ok P this f n)"
        then have miss: "\<forall>n\<ge>n0. \<not> frame_ok P this f n" by blast
        let ?m = "LEAST m. n0 < m \<and> m mod 500 = 0"
        have m: "n0 < ?m" "?m mod 500 = 0" "\<forall>j. n0 < j \<and> j < ?m \<longrightarrow> j mod 500 \<noteq> 0"
          using checkpoint_least[of n0] by blast+
        have "pow_loop P this (frame_at P f n0) =
           Yield \<lparr>ev_nonce = ?m, currentHash = frame_hash P f ?m, found = False\<rparr>
             (InLoop (frame_at P f ?m)) this"
          using m miss by (intro pow_loop_yields) auto
        then have "run P (InLoop (frame_at P f ?m)) this = Some r"
          using st g by simp
        from IH[OF this] have "\<exists>n\<ge>?m. frame_ok P this f n" by simp
        then show False using miss m(1) by (meson le_trans less_imp_le)
      qed
    qed
  qed
  then show ?thesis by simp
qed

lemma leading_zeros_iff: "leading_zeros d h \<longleftrightarrow> take d h = replicate d (CHR ''0'')"
proof
  assume "leading_zeros d h"
  then show "take d h = replicate d (CHR ''0'')"
    by (intro nth_equalityI) (auto simp: leading_zeros_def)
next
  assume eq: "take d h = replicate d (CHR ''0'')"
  then have "length (take d h) = d" by simp
  then have len: "d \<le> length h" by simp
  have "h ! i = CHR ''0''" if "i < d" for i
  proof -
    have "take d h ! i = replicate d (CHR ''0'') ! i" using eq by simp
    then show ?thesis using that by simp
  qed
  then show "leading_zeros d h" using len by (simp add: leading_zeros_def)
qed

lemma frame_hash_first [simp]:
  "frame_hash P (first_frame P m u t1 t2 this) n = candidate_hash P m u t1 t2 this n"
  by (simp add: frame_hash_def first_frame_def candidate_hash_def)

lemma frame_at_first: "frame_at P (first_frame P m u t1 t2 this) 0 = first_frame P m u t1 t2 this"
  by (simp add: frame_at_def) (simp add: first_frame_def)

lemma frame_ok_first [simp]:
  "frame_ok P this (first_frame P m u t1 t2 this) n \<longleftrightarrow>
     leading_zeros (difficulty this) (candidate_hash P m u t1 t2 this n)"
  by (simp add: frame_ok_def leading_zeros_iff) (simp add: first_frame_def)

lemma newBlock_first [simp]:
  "newBlock this (frame_at P (first_frame P m u t1 t2 this) n) = mined_block P m u t1 t2 this n"
  by (simp add: newBlock_def frame_at_def mined_block_def) (simp add: first_frame_def)

lemma gen_next_NotStarted:
  "chain this \<noteq> [] \<Longrightarrow>
     gen_next P (minePendingTransactions m u t1 t2) this =
       pow_loop P this (first_frame P m u t1 t2 this)"
  by (simp add: gen_next_def getLatestBlock_def minePendingTransactions_def first_frame_def
      Let_def candidate_hash_def candidate_transactions_def)

lemma gen_next_NotStarted_empty:
  "chain this = [] \<Longrightarrow> gen_next P (minePendingTransactions m u t1 t2) this = Throw TypeError"
  by (simp add: gen_next_def getLatestBlock_def minePendingTransactions_def)

lemma run_miner_cong:
  "gen_next P g this = gen_next P g' this \<Longrightarrow> run_miner P g this = run_miner P g' this"
  by (subst run_miner.simps[of P g], subst run_miner.simps[of P g']) simp

lemma run_miner_NotStarted:
  "chain this \<noteq> [] \<Longrightarrow>
     run_miner P (minePendingTransactions m u t1 t2) this =
       run_miner P (InLoop (frame_at P (first_frame P m u t1 t2 this) 0)) this"
  by (rule run_miner_cong) (simp add: gen_next_NotStarted frame_at_first)

lemma run_miner_mines:
  assumes "chain this \<noteq> []"
    and "leading_zeros (difficulty this) (candidate_hash P m u t1 t2 this n)"
    and "\<forall>j<n. \<not> leading_zeros (difficulty this) (candidate_hash P m u t1 t2 this j)"
  shows "run_miner P (minePendingTransactions m u t1 t2) this =
           Some (Inr (Some (mined_block P m u t1 t2 this n)),
                 this\<lparr>chain := chain this @ [mined_block P m u t1 t2 this n],
                      pendingTransactions := []\<rparr>)"
proof -
  have "run_miner P (InLoop (frame_at P (first_frame P m u t1 t2 this) 0)) this =
         Some (Inr (Some (newBlock this (frame_at P (first_frame P m u t1 t2 this) n))),
               this\<lparr>chain := chain this @ [newBlock this (frame_at P (first_frame P m u t1 t2 this) n)],
                    pendingTransactions := []\<rparr>)"
    using assms(2,3) by (intro run_miner_finds) simp_all
  then show ?thesis using assms(1) by (simp add: run_miner_NotStarted)
qed

lemma run_miner_Some_ex:
  assumes "chain this \<noteq> []"
    and "run_miner P (minePendingTransactions m u t1 t2) this = Some r"
  shows "\<exists>n. leading_zeros (difficulty this) (candidate_hash P m u t1 t2 this n)"
proof -
  from assms have "run_miner P (InLoop (frame_at P (first_frame P m u t1 t2 this) 0)) this = Some r"
    by (simp add: run_miner_NotStarted)
  from run_miner_InLoop_Some[OF this]
  have "\<exists>n\<ge>0. frame_ok P this (first_frame P m u t1 t2 this) n" by blast
  then show ?thesis by simp
qed

text \<open>The outcome of a mining run, in one statement.\<close>

lemma run_miner_result:
  assumes "chain this \<noteq> []"
  shows "run_miner P (minePendingTransactions m u t1 t2) this =
     (if \<exists>n. leading_zeros (difficulty this) (candidate_hash P m u t1 t2 this n)
      then let n = (LEAST n. leading_zeros (difficulty this) (candidate_hash P m u t1 t2 this n))
           in Some (Inr (Some (mined_block P m u t1 t2 this n)),
                    this\<lparr>chain := chain this @ [mined_block P m u t1 t2 this n],
                         pendingTransactions := []\<rparr>)
      else None)"
proof (cases "\<exists>n. leading_zeros (difficulty this) (candidate_hash P m u t1 t2 this n)")
  case True
  let ?Q = "\<lambda>n. leading_zeros (difficulty this) (candidate_hash P m u t1 t2 this n)"
  from True obtain n0 where "?Q n0" by (rule exE)
  then have a: "?Q (Least ?Q)" by (rule LeastI)
  have b: "\<forall>j<Least ?Q. \<not> ?Q j" using not_less_Least by blast
  show ?thesis using True run_miner_mines[OF assms a b] by (simp add: Let_def)
next
  case False
  have "run_miner P (minePendingTransactions m u t1 t2) this = None"
  proof (cases "run_miner P (minePendingTransactions m u t1 t2) this")
    case (Some r)
    from run_miner_Some_ex[OF assms this] False show ?thesis by blast
  qed simp
  then show ?thesis using False by simp
qed

lemma replicate_numeral: "replicate (numeral k) x = x # replicate (pred_numeral k) x"
  by (simp add: numeral_eq_Suc)

lemmas pool_simps =
  candidate_hash_def candidate_transactions_def rewardTx_def engine_of_def genesis0_def
  tx1_def tx2_def reward_carol_def


lemma hashes_tx1:
  "candidate_hash demo ''pcarol'' ''r1'' 2000 2001 (engine_of [genesis0] [tx1]) 0 = ''ff40''"
  "candidate_hash demo ''pcarol'' ''r1'' 2000 2001 (engine_of [genesis0] [tx1]) (Suc 0) = ''ff41''"
  "candidate_hash demo ''pcarol'' ''r1'' 2000 2001 (engine_of [genesis0] [tx1]) 2 = ''ff42''"
  "candidate_hash demo ''pcarol'' ''r1'' 2000 2001 (engine_of [genesis0] [tx1]) 3 = ''0043''"
  by (simp_all add: pool_simps demo_simps)


lemma carol_mines_tx1:
  "run_miner demo carol_mines (engine_of [genesis0] [tx1]) =
     Some (Inr (Some block_tx1), engine_of [genesis0, block_tx1] [])"
proof -
  let ?E = "engine_of [genesis0] [tx1]"
  have ne: "chain ?E \<noteq> []" and d: "difficulty ?E = 2" by (simp_all add: engine_of_def)
  have hit: "leading_zeros (difficulty ?E) (candidate_hash demo ''pcarol'' ''r1'' 2000 2001 ?E 3)"
    by (simp add: d hashes_tx1 leading_zeros_iff replicate_numeral)
  have miss: "\<forall>j<3. \<not> leading_zeros (difficulty ?E)
                 (candidate_hash demo ''pcarol'' ''r1'' 2000 2001 ?E j)"
  proof (intro allI impI)
    fix j :: nat assume "j < 3"
    then consider "j = 0" | "j = 1" | "j = 2" by arith
    then show "\<not> leading_zeros (difficulty ?E)
                 (candidate_hash demo ''pcarol'' ''r1'' 2000 2001 ?E j)"
      by cases (simp_all add: d hashes_tx1 leading_zeros_iff replicate_numeral)
  qed
  have mb: "mined_block demo ''pcarol'' ''r1'' 2000 2001 ?E 3 = block_tx1"
    by (simp add: mined_block_def hashes_tx1 block_tx1_def)
       (simp add: candidate_transactions_def rewardTx_def reward_carol_def engine_of_def
          genesis0_def)
  show ?thesis
    using run_miner_mines[OF ne hit miss] by (simp add: carol_mines_def mb) (simp add: engine_of_def)
qed

text \<open>
  Claim C3. When a mining operation for \<open>minerAddress\<close> runs to completion on a chain
  whose last block is \<open>L\<close> and a pool \<open>P\<close>, exactly one block is appended: its index is
  \<open>L.index + 1\<close>, its previousHash is \<open>L.hash\<close>, its transactions are the pool in
  unchanged order followed by exactly one reward transaction (sender the SYSTEM sentinel
  \<^verbatim>\<open>'SYSTEM'\<close>, recipient \<open>minerAddress\<close>, amount the configured reward, signature
  the reward sentinel \<^verbatim>\<open>'SYSTEM_REWARD'\<close>), its difficulty is the configured difficulty,
  and the pending pool is replaced by the empty list.
\<close>

theorem mining_appends_one_block:
  assumes "chain this \<noteq> []"
    and "run_miner P (minePendingTransactions minerAddress uuid now_reward now_block) this =
           Some (r, this')"
  shows "\<exists>b. r = Inr (Some b) \<and> chain this' = chain this @ [b] \<and>
             index b = index (last (chain this)) + 1 \<and>
             previousHash b = hash (last (chain this)) \<and>
             transactions b =
               pendingTransactions this @
                 [\<lparr>tx_id = uuid, sender = SYSTEM, recipient = minerAddress,
                   amount = miningReward this, fee = None, timestamp = now_reward,
                   signature = SYSTEM_REWARD\<rparr>] \<and>
             block_timestamp b = now_block \<and>
             block_difficulty b = difficulty this \<and>
             pendingTransactions this' = [] \<and>
             difficulty this' = difficulty this \<and> miningReward this' = miningReward this"
proof -
  let ?n = "LEAST n. leading_zeros (difficulty this)
                      (candidate_hash P minerAddress uuid now_reward now_block this n)"
  let ?b = "mined_block P minerAddress uuid now_reward now_block this ?n"
  from assms(2) have "r = Inr (Some ?b) \<and>
      this' = this\<lparr>chain := chain this @ [?b], pendingTransactions := []\<rparr>"
    unfolding run_miner_result[OF assms(1)] by (simp add: Let_def split: if_splits)
  then show ?thesis
    by (intro exI[of _ ?b])
       (simp add: mined_block_def candidate_transactions_def rewardTx_def SYSTEM_def
          SYSTEM_REWARD_def)
qed

theorem mining_appends_one_block_witness:
  "chain (engine_of [genesis0] [tx1]) \<noteq> [] \<and>
   run_miner demo (minePendingTransactions ''pcarol'' ''r1'' 2000 2001) (engine_of [genesis0] [tx1]) =
     Some (Inr (Some block_tx1), engine_of [genesis0, block_tx1] []) \<and>
   (\<exists>b. chain (engine_of [genesis0, block_tx1] []) = chain (engine_of [genesis0] [tx1]) @ [b] \<and>
        index b = 1 \<and> previousHash b = ''ff09'' \<and>
        transactions b = [tx1, reward_carol] \<and> block_difficulty b = 2)"
proof -
  have ne: "chain (engine_of [genesis0] [tx1]) \<noteq> []" by (simp add: engine_of_def)
  have run: "run_miner demo (minePendingTransactions ''pcarol'' ''r1'' 2000 2001)
               (engine_of [genesis0] [tx1]) =
             Some (Inr (Some block_tx1), engine_of [genesis0, block_tx1] [])"
    using carol_mines_tx1 by (simp add: carol_mines_def)
  from mining_appends_one_block[OF ne run] ne run show ?thesis
    by (auto simp: engine_of_def genesis0_def reward_carol_def SYSTEM_def SYSTEM_REWARD_def)
qed

text \<open>
  Claim C4. A mining operation on a non-empty chain completes exactly when some nonce
  gives a digest whose first \<open>difficulty\<close> characters are all \<open>0\<close>; the committed nonce
  is then the least such nonce (the search starts at 0 and goes up by 1 on each miss, so
  no smaller nonce meets the target), the stored hash is the digest at that nonce, and
  its first \<open>difficulty\<close> characters are all \<open>0\<close>.
\<close>

theorem proof_of_work_least_nonce:
  assumes "chain this \<noteq> []"
  shows "(run_miner P (minePendingTransactions minerAddress uuid now_reward now_block) this \<noteq> None
            \<longleftrightarrow> (\<exists>n. leading_zeros (difficulty this)
                       (candidate_hash P minerAddress uuid now_reward now_block this n))) \<and>
         (\<forall>r this'.
            run_miner P (minePendingTransactions minerAddress uuid now_reward now_block) this =
              Some (r, this') \<longrightarrow>
            (\<exists>b. r = Inr (Some b) \<and> last (chain this') = b \<and>
                 nonce b = (LEAST n. leading_zeros (difficulty this)
                              (candidate_hash P minerAddress uuid now_reward now_block this n)) \<and>
                 (\<forall>k<nonce b. \<not> leading_zeros (difficulty this)
                              (candidate_hash P minerAddress uuid now_reward now_block this k)) \<and>
                 hash b = candidate_hash P minerAddress uuid now_reward now_block this (nonce b) \<and>
                 leading_zeros (block_difficulty b) (hash b)))"
proof (intro conjI allI impI)
  let ?Q = "\<lambda>n. leading_zeros (difficulty this)
                   (candidate_hash P minerAddress uuid now_reward now_block this n)"
  let ?b = "mined_block P minerAddress uuid now_reward now_block this (Least ?Q)"
  let ?run = "run_miner P (minePendingTransactions minerAddress uuid now_reward now_block) this"
  show one: "?run \<noteq> None \<longleftrightarrow> (\<exists>n. ?Q n)"
  proof (cases "\<exists>n. ?Q n")
    case True
    then show ?thesis by (simp only: run_miner_result[OF assms] if_True Let_def) simp
  next
    case False
    then show ?thesis by (simp only: run_miner_result[OF assms] if_False) simp
  qed
  fix r this'
  assume run: "?run = Some (r, this')"
  have ex: "\<exists>n. ?Q n" using run one by simp
  then obtain n0 where "?Q n0" by (rule exE)
  then have least: "?Q (Least ?Q)" by (rule LeastI)
  have below: "\<not> ?Q k" if "k < Least ?Q" for k using that by (rule not_less_Least)
  have "?run = Some (Inr (Some ?b),
                     this\<lparr>chain := chain this @ [?b], pendingTransactions := []\<rparr>)"
    using ex by (simp only: run_miner_result[OF assms] if_True Let_def)
  with run have r: "r = Inr (Some ?b)"
    and t: "this' = this\<lparr>chain := chain this @ [?b], pendingTransactions := []\<rparr>"
    by simp_all
  have n: "nonce ?b = Least ?Q" and h: "hash ?b =
      candidate_hash P minerAddress uuid now_reward now_block this (Least ?Q)"
    and d: "block_difficulty ?b = difficulty this"
    by (simp_all add: mined_block_def)
  show "\<exists>b. r = Inr (Some b) \<and> last (chain this') = b \<and> nonce b = Least ?Q \<and>
            (\<forall>k<nonce b. \<not> ?Q k) \<and>
            hash b = candidate_hash P minerAddress uuid now_reward now_block this (nonce b) \<and>
            leading_zeros (block_difficulty b) (hash b)"
  proof (intro exI[of _ ?b] conjI allI impI)
    show "r = Inr (Some ?b)" by (rule r)
    show "last (chain this') = ?b" by (simp add: t)
    show "nonce ?b = Least ?Q" by (rule n)
    show "\<not> ?Q k" if "k < nonce ?b" for k using that unfolding n by (rule below)
    show "hash ?b = candidate_hash P minerAddress uuid now_reward now_block this (nonce ?b)"
      unfolding n by (rule h)
    show "leading_zeros (block_difficulty ?b) (hash ?b)"
      unfolding d h by (rule least)
  qed
qed

theorem proof_of_work_least_nonce_witness:
  "chain (engine_of [genesis0] [tx1]) \<noteq> [] \<and>
   run_miner demo (minePendingTransactions ''pcarol'' ''r1'' 2000 2001) (engine_of [genesis0] [tx1]) =
     Some (Inr (Some block_tx1), engine_of [genesis0, block_tx1] []) \<and>
   nonce block_tx1 = 3 \<and>
   (LEAST n. leading_zeros 2
      (candidate_hash demo ''pcarol'' ''r1'' 2000 2001 (engine_of [genesis0] [tx1]) n)) = 3 \<and>
   leading_zeros 2 (hash block_tx1)"
proof -
  let ?E = "engine_of [genesis0] [tx1]"
  have ne: "chain ?E \<noteq> []" by (simp add: engine_of_def)
  have run: "run_miner demo (minePendingTransactions ''pcarol'' ''r1'' 2000 2001) ?E =
             Some (Inr (Some block_tx1), engine_of [genesis0, block_tx1] [])"
    using carol_mines_tx1 by (simp add: carol_mines_def)
  have d: "difficulty ?E = 2" and n3: "nonce block_tx1 = 3" and bd: "block_difficulty block_tx1 = 2"
    by (simp_all add: engine_of_def block_tx1_def)
  from proof_of_work_least_nonce[OF ne, of demo "''pcarol''" "''r1''" 2000 2001]
  have "\<forall>r this'.
      run_miner demo (minePendingTransactions ''pcarol'' ''r1'' 2000 2001) ?E = Some (r, this') \<longrightarrow>
      (\<exists>b. r = Inr (Some b) \<and> last (chain this') = b \<and>
           nonce b = (LEAST n. leading_zeros (difficulty ?E)
                        (candidate_hash demo ''pcarol'' ''r1'' 2000 2001 ?E n)) \<and>
           (\<forall>k<nonce b. \<not> leading_zeros (difficulty ?E)
                        (candidate_hash demo ''pcarol'' ''r1'' 2000 2001 ?E k)) \<and>
           hash b = candidate_hash demo ''pcarol'' ''r1'' 2000 2001 ?E (nonce b) \<and>
           leading_zeros (block_difficulty b) (hash b))"
    by (rule conjunct2)
  from this[rule_format, OF run] obtain b where b: "Inr (Some block_tx1) = Inr (Some b)"
    and l: "nonce b = (LEAST n. leading_zeros (difficulty ?E)
                        (candidate_hash demo ''pcarol'' ''r1'' 2000 2001 ?E n))"
    and z: "leading_zeros (block_difficulty b) (hash b)"
    by blast
  from b have "b = block_tx1" by simp
  with l z have "(LEAST n. leading_zeros (difficulty ?E)
                        (candidate_hash demo ''pcarol'' ''r1'' 2000 2001 ?E n)) = 3"
    and "leading_zeros 2 (hash block_tx1)"
    unfolding n3[symmetric] bd[symmetric] by simp_all
  then show ?thesis using ne run n3 unfolding d by (intro conjI)
qed

subsection \<open>Validation of concrete chains\<close>

lemmas block_simps =
  block_fails_def signature_fails_def dataToVerify_def genesis0_def block_empty_def
  block_tx1_def block_tx2_def tx1_def tx2_def reward_carol_def

lemma block_tx1_passes: "\<not> block_fails demo [genesis0, block_tx1] 1"
  by (simp add: block_simps demo_simps)


lemma corrupt_block_tx1:
  "chain (corruptBlock 5000 1 (engine_of [genesis0, block_tx1] [])) =
     [genesis0, block_tx1\<lparr>transactions := [tx1\<lparr>amount := 999999999\<rparr>, reward_carol]\<rparr>]"
  by (simp add: corruptBlock_def corrupt_transactions_def engine_of_def block_tx1_def)

lemma corrupt_block_tx1_fails:
  "block_fails demo
     [genesis0, block_tx1\<lparr>transactions := [tx1\<lparr>amount := 999999999\<rparr>, reward_carol]\<rparr>] 1"
  by (simp add: block_simps demo_simps)

lemma valid_chain_tx1:
  "\<forall>j. 1 \<le> j \<and> j < length [genesis0, block_tx1] \<longrightarrow> \<not> block_fails demo [genesis0, block_tx1] j"
proof (intro allI impI)
  fix j assume "1 \<le> j \<and> j < length [genesis0, block_tx1]"
  then have "j = 1" by simp
  then show "\<not> block_fails demo [genesis0, block_tx1] j" using block_tx1_passes by simp
qed

theorem isChainValid_spec_witness:
  "isChainValid demo (engine_of [genesis0, block_tx1] []) =
     \<lparr>isValid = True, errorBlockIndex = - 1\<rparr> \<and>
   isChainValid demo (corruptBlock 5000 1 (engine_of [genesis0, block_tx1] [])) =
     \<lparr>isValid = False, errorBlockIndex = 1\<rparr>"
proof -
  let ?E = "engine_of [genesis0, block_tx1] []"
  have c: "chain ?E = [genesis0, block_tx1]" by (simp add: engine_of_def)
  have a: "isChainValid demo ?E = \<lparr>isValid = True, errorBlockIndex = - 1\<rparr>"
    using isChainValid_spec [of demo ?E 0] valid_chain_tx1 unfolding c by blast
  have no: "\<forall>j. 1 \<le> j \<and> j < (1::nat) \<longrightarrow>
      \<not> block_fails demo (chain (corruptBlock 5000 1 ?E)) j" by simp
  have b: "isChainValid demo (corruptBlock 5000 1 ?E) = \<lparr>isValid = False, errorBlockIndex = int 1\<rparr>"
    using isChainValid_spec [of demo "corruptBlock 5000 1 ?E" 1] corrupt_block_tx1_fails no
    unfolding corrupt_block_tx1 by simp
  show ?thesis using a b by simp
qed

subsection \<open>Cancellation\<close>

lemma pow_loop_progress:
  "pow_loop P this f = Yield ev g' this' \<Longrightarrow> \<not> found ev \<Longrightarrow> this' = this"
proof (induction P this f rule: pow_loop.induct)
  case (1 P this f)
  show ?case
  proof (cases "take (difficulty this) (f_hash f) \<noteq> f_target f")
    case False
    with "1.prems" show ?thesis
      by (subst (asm) pow_loop.simps) (auto simp: commit_def)
  next
    case True
    let ?n = "f_nonce f + 1"
    let ?h = "calculateHash P (f_index f) (hash (f_previousBlock f)) (f_timestamp f)
                (f_transactions f) ?n"
    let ?f' = "f\<lparr>f_nonce := ?n, f_hash := ?h\<rparr>"
    show ?thesis
    proof (cases "?n mod 500 = 0")
      case yes: True
      from "1.prems"(1) True yes show ?thesis
        by (subst (asm) pow_loop.simps) (auto simp: Let_def simp del: mod_eq_0_iff_dvd)
    next
      case no: False
      from "1.prems"(1) True no have "pow_loop P this ?f' = Yield ev g' this'"
        by (subst (asm) pow_loop.simps) (simp add: Let_def del: mod_eq_0_iff_dvd)
      with "1.IH"[OF True refl refl refl no] "1.prems"(2) show ?thesis by simp
    qed
  qed
qed

lemma gen_next_progress:
  "gen_next P g this = Yield ev g' this' \<Longrightarrow> \<not> found ev \<Longrightarrow> this' = this"
  by (cases g)
     (auto simp: gen_next_def getLatestBlock_def Let_def split: if_splits
        dest: pow_loop_progress)

lemma cancel_after_engine:
  "cancel_after P k g this = Some (g', this') \<Longrightarrow> this' = this \<and> g' = Completed"
proof (induction k arbitrary: g this)
  case 0
  then show ?case by (simp add: gen_return_def)
next
  case (Suc k)
  from Suc.prems obtain ev g1 this1 where
    st: "gen_next P g this = Yield ev g1 this1" and nf: "\<not> found ev"
    and rest: "cancel_after P k g1 this1 = Some (g', this')"
    by (auto split: step.splits if_splits)
  from gen_next_progress[OF st nf] have "this1 = this" .
  with Suc.IH[OF rest] show ?case by simp
qed

text \<open>
  Claim C9. If the caller abandons a mining operation at a progress checkpoint, that is
  after any number of progress events and before the search has completed, the engine
  is exactly as it was before the mine call: no block is committed and the pool is
  untouched; the cancelled generator is completed and changes nothing afterwards.
\<close>

theorem cancelled_mining_changes_nothing:
  assumes "cancel_after P k (minePendingTransactions minerAddress uuid now_reward now_block) this =
             Some (g', this')"
  shows "this' = this \<and> chain this' = chain this \<and>
         pendingTransactions this' = pendingTransactions this \<and>
         gen_next P g' this' = Return None"
proof -
  from cancel_after_engine[OF assms] have "this' = this" "g' = Completed" by simp_all
  then show ?thesis by (simp add: gen_next_def)
qed

lemma gen_next_first_checkpoint:
  assumes "chain this \<noteq> []"
    and "\<forall>j<500. \<not> leading_zeros (difficulty this) (candidate_hash P m u t1 t2 this j)"
  shows "gen_next P (minePendingTransactions m u t1 t2) this =
           Yield \<lparr>ev_nonce = 500, currentHash = candidate_hash P m u t1 t2 this 500, found = False\<rparr>
             (InLoop (frame_at P (first_frame P m u t1 t2 this) 500)) this"
proof -
  have "pow_loop P this (frame_at P (first_frame P m u t1 t2 this) 0) =
         Yield \<lparr>ev_nonce = 500, currentHash = frame_hash P (first_frame P m u t1 t2 this) 500,
                found = False\<rparr>
           (InLoop (frame_at P (first_frame P m u t1 t2 this) 500)) this"
  proof (rule pow_loop_yields)
    show "(0::nat) < 500" by simp
    show "(500::nat) mod 500 = 0" by simp
    show "\<forall>j. 0 \<le> j \<and> j < 500 \<longrightarrow> \<not> frame_ok P this (first_frame P m u t1 t2 this) j"
      using assms(2) by simp
    show "\<forall>j::nat. 0 < j \<and> j < 500 \<longrightarrow> j mod 500 \<noteq> 0" by simp
  qed
  then show ?thesis using assms(1) by (simp add: gen_next_NotStarted frame_at_first)
qed

lemma demo_hash_length: "length (sha256 demo s) = 4"
  by (simp add: sha256_def demo_def demo_digest_def bufferToHex_def byte_hex_def)

lemma demo_difficulty_5: "\<not> leading_zeros 5 (candidate_hash demo m u t1 t2 this n)"
  by (simp add: leading_zeros_def candidate_hash_def calculateHash_def demo_hash_length)

theorem cancelled_mining_changes_nothing_witness:
  "cancel_after demo 1 (minePendingTransactions ''pcarol'' ''r1'' 2000 2001)
     (setDifficulty 5 (engine_of [genesis0] [tx1])) =
     Some (Completed, setDifficulty 5 (engine_of [genesis0] [tx1])) \<and>
   chain (setDifficulty 5 (engine_of [genesis0] [tx1])) = [genesis0] \<and>
   pendingTransactions (setDifficulty 5 (engine_of [genesis0] [tx1])) = [tx1]"
proof -
  let ?E = "setDifficulty 5 (engine_of [genesis0] [tx1])"
  let ?g = "minePendingTransactions ''pcarol'' ''r1'' 2000 2001"
  have ne: "chain ?E \<noteq> []" and d: "difficulty ?E = 5"
    by (simp_all add: setDifficulty_def engine_of_def)
  have "gen_next demo ?g ?E =
      Yield \<lparr>ev_nonce = 500, currentHash = candidate_hash demo ''pcarol'' ''r1'' 2000 2001 ?E 500,
             found = False\<rparr>
        (InLoop (frame_at demo (first_frame demo ''pcarol'' ''r1'' 2000 2001 ?E) 500)) ?E"
    using ne by (rule gen_next_first_checkpoint) (simp add: d demo_difficulty_5)
  then have run: "cancel_after demo 1 ?g ?E = Some (Completed, ?E)"
    by (simp add: gen_return_def)
  from cancelled_mining_changes_nothing[OF run] run show ?thesis
    by (simp add: setDifficulty_def engine_of_def)
qed

subsection \<open>Balances\<close>

lemma fold_apply_committed:
  "fold (apply_committed a) txs b = b + (\<Sum>tx\<leftarrow>txs. credit a tx - debit a tx)"
  by (induction txs arbitrary: b) (simp_all add: apply_committed_def credit_def debit_def Let_def)

lemma fold_apply_pending:
  "fold (apply_pending a) txs b = b - (\<Sum>tx\<leftarrow>txs. debit a tx)"
  by (induction txs arbitrary: b) (simp_all add: apply_pending_def debit_def)

lemma fold_blocks:
  "fold (\<lambda>block. fold (apply_committed a) (transactions block)) c b =
     b + (\<Sum>tx\<leftarrow>concat (map transactions c). credit a tx - debit a tx)"
  by (induction c arbitrary: b) (simp_all add: fold_apply_committed)

lemma getBalanceOfAddress_sum: "getBalanceOfAddress a this = spec_balance a this"
  by (simp add: getBalanceOfAddress_def spec_balance_def committed_transactions_def
      fold_apply_pending fold_blocks)

lemma sum_credit_debit:
  "(\<Sum>tx\<leftarrow>txs. credit a tx - debit a tx) = (\<Sum>tx\<leftarrow>txs. credit a tx) - (\<Sum>tx\<leftarrow>txs. debit a tx)"
  by (induction txs) simp_all

text \<open>
  Claim C6, the part the code has: the balance is the sum over the committed
  transactions, in chain order, of the amount received minus the amount sent, less the
  amounts of the pending transactions the address sent. The code never reads a fee: the
  theorem evaluates it on the chain in which alice's transaction \<open>tx2\<close> (amount 10,
  fee 1) is mined, and on the pool that holds \<open>tx2\<close>; both balances are \<open>-10\<close>, where
  the sum with fees gives \<open>-11\<close>.
\<close>

theorem getBalanceOfAddress_ignores_fee:
  "sender tx2 = ''palice'' \<and> amount tx2 = 10 \<and> fee tx2 = Some 1 \<and>
   getBalanceOfAddress ''palice'' (engine_of [genesis0, block_tx2] []) = - 10 \<and>
   spec_balance_with_fee ''palice'' (engine_of [genesis0, block_tx2] []) = - 11 \<and>
   getBalanceOfAddress ''palice'' (engine_of [genesis0] [tx2]) = - 10 \<and>
   spec_balance_with_fee ''palice'' (engine_of [genesis0] [tx2]) = - 11"
  by (simp add: getBalanceOfAddress_def spec_balance_with_fee_def committed_transactions_def
      apply_committed_def apply_pending_def credit_def debit_with_fee_def Let_def
      engine_of_def genesis0_def block_tx2_def tx2_def reward_carol_def)

text \<open>The change of a balance across a completed mining operation.\<close>

lemma run_miner_balance:
  assumes "chain this \<noteq> []"
    and "run_miner P (minePendingTransactions minerAddress uuid now_reward now_block) this =
           Some (r, this')"
  shows "getBalanceOfAddress a this' - getBalanceOfAddress a this =
           (\<Sum>tx\<leftarrow>pendingTransactions this. credit a tx)
             + (if a = minerAddress then miningReward this else 0)
             - (if a = SYSTEM then miningReward this else 0)"
proof -
  let ?n = "LEAST n. leading_zeros (difficulty this)
                      (candidate_hash P minerAddress uuid now_reward now_block this n)"
  let ?b = "mined_block P minerAddress uuid now_reward now_block this ?n"
  from assms(2) have t: "this' = this\<lparr>chain := chain this @ [?b], pendingTransactions := []\<rparr>"
    unfolding run_miner_result[OF assms(1)] by (simp add: Let_def split: if_splits)
  have txs: "transactions ?b =
      pendingTransactions this @ [rewardTx minerAddress uuid now_reward this]"
    by (simp add: mined_block_def candidate_transactions_def)
  have rw: "credit a (rewardTx minerAddress uuid now_reward this) =
              (if a = minerAddress then miningReward this else 0)"
       "debit a (rewardTx minerAddress uuid now_reward this) =
              (if a = SYSTEM then miningReward this else 0)"
    by (auto simp: credit_def debit_def rewardTx_def SYSTEM_def)
  show ?thesis
    unfolding getBalanceOfAddress_sum
    by (simp add: t spec_balance_def committed_transactions_def txs sum_credit_debit rw)
qed

text \<open>Sums of amounts, taken with either sign, stay within the volume.\<close>

lemma abs_sum_le_volume:
  assumes "\<And>tx. \<bar>f tx\<bar> \<le> \<bar>amount tx\<bar>"
  shows "\<bar>\<Sum>tx\<leftarrow>txs. f tx\<bar> \<le> volume txs"
proof (induction txs)
  case Nil
  then show ?case by (simp add: volume_def)
next
  case (Cons x xs)
  have "\<bar>f x + (\<Sum>tx\<leftarrow>xs. f tx)\<bar> \<le> \<bar>f x\<bar> + \<bar>\<Sum>tx\<leftarrow>xs. f tx\<bar>" by (rule abs_triangle_ineq)
  also have "\<dots> \<le> \<bar>amount x\<bar> + volume xs" using assms[of x] Cons.IH by simp
  finally show ?case by (simp add: volume_def)
qed

lemma volume_append: "volume (xs @ ys) = volume xs + volume ys"
  by (simp add: volume_def)

lemma spec_balance_bound:
  "\<bar>spec_balance a this\<bar> \<le> volume (committed_transactions this) + volume (pendingTransactions this)"
proof -
  have "\<bar>\<Sum>tx\<leftarrow>committed_transactions this. credit a tx - debit a tx\<bar>
          \<le> volume (committed_transactions this)"
    by (rule abs_sum_le_volume) (simp add: credit_def debit_def)
  moreover have "\<bar>\<Sum>tx\<leftarrow>pendingTransactions this. debit a tx\<bar> \<le> volume (pendingTransactions this)"
    by (rule abs_sum_le_volume) (simp add: debit_def)
  ultimately show ?thesis unfolding spec_balance_def by linarith
qed

text \<open>Every value the two loops of \<^verbatim>\<open>getBalanceOfAddress\<close> pass through is within the volume.\<close>

lemma fold_apply_committed_bound:
  "\<bar>fold (apply_committed a) txs b\<bar> \<le> \<bar>b\<bar> + volume txs"
proof (induction txs arbitrary: b)
  case Nil
  then show ?case by (simp add: volume_def)
next
  case (Cons x xs)
  have "\<bar>apply_committed a x b\<bar> \<le> \<bar>b\<bar> + \<bar>amount x\<bar>"
    by (simp add: apply_committed_def Let_def abs_triangle_ineq abs_triangle_ineq4)
  with Cons.IH[of "apply_committed a x b"] show ?case by (simp add: volume_def)
qed

lemma fold_apply_pending_bound:
  "\<bar>fold (apply_pending a) txs b\<bar> \<le> \<bar>b\<bar> + volume txs"
proof (induction txs arbitrary: b)
  case Nil
  then show ?case by (simp add: volume_def)
next
  case (Cons x xs)
  have "\<bar>apply_pending a x b\<bar> \<le> \<bar>b\<bar> + \<bar>amount x\<bar>"
    by (simp add: apply_pending_def abs_triangle_ineq4)
  with Cons.IH[of "apply_pending a x b"] show ?case by (simp add: volume_def)
qed

text \<open>
  Claim C7, as the code has it, for integer amounts. Let the amounts on the chain and
  in the pool and the reward be integers whose absolute values add up to at most
  \<^verbatim>\<open>Number.MAX_SAFE_INTEGER\<close>, the range in which the program's arithmetic is exact.
  Across one completed mining operation the balance of an address then changes by the
  amounts it received in the pool transactions, plus the reward when it is the miner,
  minus the reward when it is the SYSTEM sentinel (the sender of the reward
  transaction); both balances are within the exact range. What the address sent is not
  debited by the mining operation: the balance before the call had already debited
  these pending transactions.
\<close>

theorem mining_balance_change:
  assumes "chain this \<noteq> []"
    and "exact_amounts this"
    and "run_miner P (minePendingTransactions minerAddress uuid now_reward now_block) this =
           Some (r, this')"
  shows "getBalanceOfAddress a this' - getBalanceOfAddress a this =
           (\<Sum>tx\<leftarrow>pendingTransactions this. credit a tx)
             + (if a = minerAddress then miningReward this else 0)
             - (if a = SYSTEM then miningReward this else 0) \<and>
         \<bar>getBalanceOfAddress a this\<bar> \<le> max_safe \<and>
         \<bar>getBalanceOfAddress a this'\<bar> \<le> max_safe"
proof (intro conjI)
  show "getBalanceOfAddress a this' - getBalanceOfAddress a this =
           (\<Sum>tx\<leftarrow>pendingTransactions this. credit a tx)
             + (if a = minerAddress then miningReward this else 0)
             - (if a = SYSTEM then miningReward this else 0)"
    using assms(1,3) by (rule run_miner_balance)
  have "\<bar>spec_balance a this\<bar> \<le> max_safe"
    using spec_balance_bound[of a this] assms(2) unfolding exact_amounts_def by linarith
  then show "\<bar>getBalanceOfAddress a this\<bar> \<le> max_safe" by (simp add: getBalanceOfAddress_sum)
  let ?n = "LEAST n. leading_zeros (difficulty this)
                      (candidate_hash P minerAddress uuid now_reward now_block this n)"
  let ?b = "mined_block P minerAddress uuid now_reward now_block this ?n"
  from assms(3) have t: "this' = this\<lparr>chain := chain this @ [?b], pendingTransactions := []\<rparr>"
    unfolding run_miner_result[OF assms(1)] by (simp add: Let_def split: if_splits)
  have "volume (committed_transactions this') + volume (pendingTransactions this') =
          volume (committed_transactions this) + volume (pendingTransactions this)
            + \<bar>miningReward this\<bar>"
    by (simp add: t committed_transactions_def mined_block_def candidate_transactions_def
        rewardTx_def volume_append) (simp add: volume_def)
  then have "\<bar>spec_balance a this'\<bar> \<le> max_safe"
    using spec_balance_bound[of a this'] assms(2) unfolding exact_amounts_def by linarith
  then show "\<bar>getBalanceOfAddress a this'\<bar> \<le> max_safe" by (simp add: getBalanceOfAddress_sum)
qed

theorem mining_balance_change_witness:
  "chain (engine_of [genesis0] [tx1]) \<noteq> [] \<and>
   exact_amounts (engine_of [genesis0] [tx1]) \<and>
   run_miner demo (minePendingTransactions ''pcarol'' ''r1'' 2000 2001) (engine_of [genesis0] [tx1]) =
     Some (Inr (Some block_tx1), engine_of [genesis0, block_tx1] []) \<and>
   getBalanceOfAddress ''pcarol'' (engine_of [genesis0, block_tx1] [])
     - getBalanceOfAddress ''pcarol'' (engine_of [genesis0] [tx1]) = 100 \<and>
   getBalanceOfAddress ''pbob'' (engine_of [genesis0, block_tx1] [])
     - getBalanceOfAddress ''pbob'' (engine_of [genesis0] [tx1]) = 10"
proof -
  have ne: "chain (engine_of [genesis0] [tx1]) \<noteq> []" by (simp add: engine_of_def)
  have ex: "exact_amounts (engine_of [genesis0] [tx1])"
    by (simp add: exact_amounts_def volume_def committed_transactions_def max_safe_def
        engine_of_def genesis0_def tx1_def)
  have run: "run_miner demo (minePendingTransactions ''pcarol'' ''r1'' 2000 2001)
               (engine_of [genesis0] [tx1]) =
             Some (Inr (Some block_tx1), engine_of [genesis0, block_tx1] [])"
    using carol_mines_tx1 by (simp add: carol_mines_def)
  from mining_balance_change[OF ne ex run, of "''pcarol''"]
    mining_balance_change[OF ne ex run, of "''pbob''"] ne ex run
  show ?thesis by (simp add: engine_of_def tx1_def credit_def SYSTEM_def)
qed

text \<open>
  The claim as stated fails for a sender: alice sent \<open>tx1\<close> (amount 10), carol mines it,
  and alice's balance is \<open>-10\<close> before the mining operation and \<open>-10\<close> after it.
\<close>

theorem sender_balance_counterexample:
  "run_miner demo (minePendingTransactions ''pcarol'' ''r1'' 2000 2001) (engine_of [genesis0] [tx1]) =
     Some (Inr (Some block_tx1), engine_of [genesis0, block_tx1] []) \<and>
   tx1 \<in> set (transactions block_tx1) \<and> sender tx1 = ''palice'' \<and> amount tx1 = 10 \<and>
   getBalanceOfAddress ''palice'' (engine_of [genesis0] [tx1]) = - 10 \<and>
   getBalanceOfAddress ''palice'' (engine_of [genesis0, block_tx1] []) = - 10 \<and>
   getBalanceOfAddress ''palice'' (engine_of [genesis0, block_tx1] []) \<noteq>
     getBalanceOfAddress ''palice'' (engine_of [genesis0] [tx1]) - amount tx1"
proof -
  have run: "run_miner demo (minePendingTransactions ''pcarol'' ''r1'' 2000 2001)
               (engine_of [genesis0] [tx1]) =
             Some (Inr (Some block_tx1), engine_of [genesis0, block_tx1] [])"
    using carol_mines_tx1 by (simp add: carol_mines_def)
  have "getBalanceOfAddress ''palice'' (engine_of [genesis0] [tx1]) = - 10"
    "getBalanceOfAddress ''palice'' (engine_of [genesis0, block_tx1] []) = - 10"
    by (simp_all add: getBalanceOfAddress_def apply_committed_def apply_pending_def Let_def
        engine_of_def genesis0_def block_tx1_def tx1_def reward_carol_def)
  moreover have "tx1 \<in> set (transactions block_tx1)" "sender tx1 = ''palice''" "amount tx1 = 10"
    by (simp_all add: block_tx1_def tx1_def)
  ultimately show ?thesis using run by simp
qed

subsection \<open>The signed message and the verified message\<close>

lemma nat_str_nonempty: "nat_str n \<noteq> []"
  by (subst nat_str.simps) simp

lemma num_str_nonempty: "num_str i \<noteq> []"
  by (simp add: num_str_def nat_str_nonempty)

text \<open>On the signing path without a fee the two messages are the same string.\<close>

lemma handleSend_message:
  assumes "handleSend P (Some w) rcpt amt now uuid = Some tx"
  shows "dataToVerify tx = handleSend_dataToSign P w rcpt amt now"
    and "signature tx = signData P (privateKey w) (dataToVerify tx)"
  using assms
  by (auto simp: handleSend_def dataToVerify_def handleSend_dataToSign_def split: if_splits)

text \<open>
  So an unmodified transaction of that path passes the validator's signature check,
  whenever the platform verifies what the wallet's key signed.
\<close>

lemma handleSend_verifies:
  assumes "handleSend P (Some w) rcpt amt now uuid = Some tx"
    and "\<And>m. verifySignature P (publicKeyPem w) (signData P (privateKey w) m) m"
  shows "verify_transactions P [tx]"
proof -
  have "sender tx = publicKeyPem w" using assms(1) by (auto simp: handleSend_def split: if_splits)
  then show ?thesis using handleSend_message(2)[OF assms(1)] assms(2) by simp
qed

lemma handleSend_tx1: "handleSend demo (Some alice) ''pbob'' ''10'' 1500 ''t1'' = Some tx1"
  by (simp add: handleSend_def handleSend_dataToSign_def alice_def tx1_def demo_simps)

text \<open>On the signing path with a fee they never are: the signed one is longer.\<close>

lemma confirmSend_message:
  assumes "confirmSend P (Some w) rcpt amt fe now uuid = Some tx"
  shows "dataToVerify tx \<noteq> confirmSend_dataToSign P w rcpt amt fe now"
proof -
  have "length (dataToVerify tx) < length (confirmSend_dataToSign P w rcpt amt fe now)"
    using assms num_str_nonempty[of "parseFloat P fe"]
    by (auto simp: confirmSend_def dataToVerify_def confirmSend_dataToSign_def split: if_splits)
  then show ?thesis by auto
qed

lemma hashes_tx2:
  "candidate_hash demo ''pcarol'' ''r1'' 2000 2001 (engine_of [genesis0] [tx2]) 0 = ''ffa3''"
  "candidate_hash demo ''pcarol'' ''r1'' 2000 2001 (engine_of [genesis0] [tx2]) (Suc 0) = ''ffa4''"
  "candidate_hash demo ''pcarol'' ''r1'' 2000 2001 (engine_of [genesis0] [tx2]) 2 = ''ffa5''"
  "candidate_hash demo ''pcarol'' ''r1'' 2000 2001 (engine_of [genesis0] [tx2]) 3 = ''00a6''"
  by (simp_all add: pool_simps demo_simps)

lemma carol_mines_tx2:
  "run_miner demo carol_mines (engine_of [genesis0] [tx2]) =
     Some (Inr (Some block_tx2), engine_of [genesis0, block_tx2] [])"
proof -
  let ?E = "engine_of [genesis0] [tx2]"
  have ne: "chain ?E \<noteq> []" and d: "difficulty ?E = 2" by (simp_all add: engine_of_def)
  have hit: "leading_zeros (difficulty ?E) (candidate_hash demo ''pcarol'' ''r1'' 2000 2001 ?E 3)"
    by (simp add: d hashes_tx2 leading_zeros_iff replicate_numeral)
  have miss: "\<forall>j<3. \<not> leading_zeros (difficulty ?E)
                 (candidate_hash demo ''pcarol'' ''r1'' 2000 2001 ?E j)"
  proof (intro allI impI)
    fix j :: nat assume "j < 3"
    then consider "j = 0" | "j = 1" | "j = 2" by arith
    then show "\<not> leading_zeros (difficulty ?E)
                 (candidate_hash demo ''pcarol'' ''r1'' 2000 2001 ?E j)"
      by cases (simp_all add: d hashes_tx2 leading_zeros_iff replicate_numeral)
  qed
  have mb: "mined_block demo ''pcarol'' ''r1'' 2000 2001 ?E 3 = block_tx2"
    by (simp add: mined_block_def hashes_tx2 block_tx2_def)
       (simp add: candidate_transactions_def rewardTx_def reward_carol_def engine_of_def
          genesis0_def)
  show ?thesis
    using run_miner_mines[OF ne hit miss] by (simp add: carol_mines_def mb) (simp add: engine_of_def)
qed

lemma block_tx2_fails: "signature_fails demo block_tx2"
  by (simp add: block_simps demo_simps)

lemma chain_tx2_invalid:
  "isChainValid demo (engine_of [genesis0, block_tx2] []) = \<lparr>isValid = False, errorBlockIndex = 1\<rparr>"
proof -
  have "validate_from demo [genesis0, block_tx2] 1 = \<lparr>isValid = False, errorBlockIndex = int 1\<rparr>"
    unfolding validate_from_invalid using block_tx2_fails by (simp add: block_fails_def)
  then show ?thesis by (simp add: isChainValid_def engine_of_def)
qed

text \<open>
  Claim C2. The claim holds on the signing path without a fee
  (\<open>handleSend_message\<close>). On the wallet's current signing path, \<^verbatim>\<open>confirmSend\<close>, the
  signed string contains the fee and the string \<^verbatim>\<open>isChainValid\<close> rebuilds does not
  (\<open>confirmSend_message\<close>). The theorem runs the code on alice's transfer of 10 to bob
  with fee 1: the signature verifies against the signed string, not against the rebuilt
  one, and once carol has mined the transaction the chain is reported invalid at block 1.
\<close>

theorem confirmSend_fails_validation:
  "confirmSend demo (Some alice) ''pbob'' ''10'' ''1'' 1500 ''t2'' = Some tx2 \<and>
   confirmSend_dataToSign demo alice ''pbob'' ''10'' ''1'' 1500 = ''palicepbob1011500'' \<and>
   dataToVerify tx2 = ''palicepbob101500'' \<and>
   verifySignature demo (sender tx2) (signature tx2)
     (confirmSend_dataToSign demo alice ''pbob'' ''10'' ''1'' 1500) \<and>
   \<not> verifySignature demo (sender tx2) (signature tx2) (dataToVerify tx2) \<and>
   addTransaction tx2 (engine_of [genesis0] []) = (None, engine_of [genesis0] [tx2]) \<and>
   run_miner demo (minePendingTransactions ''pcarol'' ''r1'' 2000 2001) (engine_of [genesis0] [tx2]) =
     Some (Inr (Some block_tx2), engine_of [genesis0, block_tx2] []) \<and>
   isChainValid demo (engine_of [genesis0, block_tx2] []) =
     \<lparr>isValid = False, errorBlockIndex = 1\<rparr>"
proof -
  have sign: "confirmSend_dataToSign demo alice ''pbob'' ''10'' ''1'' 1500 = ''palicepbob1011500''"
    by (simp add: confirmSend_dataToSign_def alice_def demo_simps)
  have tx: "confirmSend demo (Some alice) ''pbob'' ''10'' ''1'' 1500 ''t2'' = Some tx2"
    by (simp add: confirmSend_def sign) (simp add: alice_def tx2_def demo_simps)
  have ver: "dataToVerify tx2 = ''palicepbob101500''"
    by (simp add: dataToVerify_def tx2_def demo_simps)
  have ok: "verifySignature demo (sender tx2) (signature tx2) ''palicepbob1011500''"
    and bad: "\<not> verifySignature demo (sender tx2) (signature tx2) ''palicepbob101500''"
    by (simp_all add: tx2_def demo_simps)
  have add: "addTransaction tx2 (engine_of [genesis0] []) = (None, engine_of [genesis0] [tx2])"
    by (simp add: addTransaction_def engine_of_def tx2_def)
  have run: "run_miner demo (minePendingTransactions ''pcarol'' ''r1'' 2000 2001)
               (engine_of [genesis0] [tx2]) =
             Some (Inr (Some block_tx2), engine_of [genesis0, block_tx2] [])"
    using carol_mines_tx2 by (simp add: carol_mines_def)
  show ?thesis using sign tx ver ok bad add run chain_tx2_invalid by simp
qed

subsection \<open>Mining keeps a valid chain valid\<close>

lemma block_fails_append:
  assumes "j < length c"
  shows "block_fails P (c @ [b]) j = block_fails P c j"
proof -
  have "j - 1 < length c" using assms by simp
  then show ?thesis using assms by (simp add: block_fails_def nth_append)
qed

lemma signature_fails_mined:
  "signature_fails P (mined_block P m u t1 t2 this n) \<longleftrightarrow>
     \<not> verify_transactions P (pendingTransactions this)"
  by (auto simp: signature_fails_def verify_transactions_iff mined_block_def
      candidate_transactions_def rewardTx_def)

lemma block_fails_mined:
  assumes "chain this \<noteq> []"
  shows "block_fails P (chain this @ [mined_block P m u t1 t2 this n]) (length (chain this)) \<longleftrightarrow>
           \<not> verify_transactions P (pendingTransactions this)"
proof -
  let ?b = "mined_block P m u t1 t2 this n"
  have prev: "(chain this @ [?b]) ! (length (chain this) - 1) = last (chain this)"
    using assms by (simp add: nth_append last_conv_nth)
  have cur: "(chain this @ [?b]) ! length (chain this) = ?b" by simp
  have link: "previousHash ?b = hash (last (chain this))"
    and h: "calculateHash P (index ?b) (previousHash ?b) (block_timestamp ?b) (transactions ?b)
              (nonce ?b) = hash ?b"
    by (simp_all add: mined_block_def candidate_hash_def)
  show ?thesis
    unfolding block_fails_def prev cur using link h signature_fails_mined[of P m u t1 t2 this n]
    by simp
qed

lemma mining_keeps_valid:
  assumes ne: "chain this \<noteq> []"
    and run: "run_miner P (minePendingTransactions m u t1 t2) this = Some (r, this')"
    and valid: "isChainValid P this = \<lparr>isValid = True, errorBlockIndex = - 1\<rparr>"
    and pool: "verify_transactions P (pendingTransactions this)"
  shows "isChainValid P this' = \<lparr>isValid = True, errorBlockIndex = - 1\<rparr>"
proof -
  let ?n = "LEAST n. leading_zeros (difficulty this) (candidate_hash P m u t1 t2 this n)"
  let ?b = "mined_block P m u t1 t2 this ?n"
  from run have t: "this' = this\<lparr>chain := chain this @ [?b], pendingTransactions := []\<rparr>"
    unfolding run_miner_result[OF ne] by (simp add: Let_def split: if_splits)
  from valid have old: "\<forall>j. 1 \<le> j \<and> j < length (chain this) \<longrightarrow> \<not> block_fails P (chain this) j"
    by (simp add: isChainValid_def validate_from_valid)
  have "\<not> block_fails P (chain this @ [?b]) j" if j: "1 \<le> j" "j < length (chain this @ [?b])" for j
  proof (cases "j < length (chain this)")
    case True
    then show ?thesis using old j(1) by (simp add: block_fails_append)
  next
    case False
    then have "j = length (chain this)" using j(2) by simp
    then show ?thesis using block_fails_mined[OF ne, of P m u t1 t2 ?n] pool by simp
  qed
  then have "validate_from P (chain this @ [?b]) 1 = \<lparr>isValid = True, errorBlockIndex = - 1\<rparr>"
    unfolding validate_from_valid by blast
  then show ?thesis by (simp add: isChainValid_def t)
qed

lemma hashes_forged:
  "candidate_hash demo ''pcarol'' ''r1'' 2000 2001 (engine_of [genesis0] [forged]) 0 = ''fff2''"
  "candidate_hash demo ''pcarol'' ''r1'' 2000 2001 (engine_of [genesis0] [forged]) (Suc 0) = ''fff3''"
  "candidate_hash demo ''pcarol'' ''r1'' 2000 2001 (engine_of [genesis0] [forged]) 2 = ''fff4''"
  "candidate_hash demo ''pcarol'' ''r1'' 2000 2001 (engine_of [genesis0] [forged]) 3 = ''00f5''"
  by (simp_all add: pool_simps forged_def demo_simps)

lemma carol_mines_forged:
  "run_miner demo carol_mines (engine_of [genesis0] [forged]) =
     Some (Inr (Some block_forged), engine_of [genesis0, block_forged] [])"
proof -
  let ?E = "engine_of [genesis0] [forged]"
  have ne: "chain ?E \<noteq> []" and d: "difficulty ?E = 2" by (simp_all add: engine_of_def)
  have hit: "leading_zeros (difficulty ?E) (candidate_hash demo ''pcarol'' ''r1'' 2000 2001 ?E 3)"
    by (simp add: d hashes_forged leading_zeros_iff replicate_numeral)
  have miss: "\<forall>j<3. \<not> leading_zeros (difficulty ?E)
                 (candidate_hash demo ''pcarol'' ''r1'' 2000 2001 ?E j)"
  proof (intro allI impI)
    fix j :: nat assume "j < 3"
    then consider "j = 0" | "j = 1" | "j = 2" by arith
    then show "\<not> leading_zeros (difficulty ?E)
                 (candidate_hash demo ''pcarol'' ''r1'' 2000 2001 ?E j)"
      by cases (simp_all add: d hashes_forged leading_zeros_iff replicate_numeral)
  qed
  have mb: "mined_block demo ''pcarol'' ''r1'' 2000 2001 ?E 3 = block_forged"
    by (simp add: mined_block_def hashes_forged block_forged_def)
       (simp add: candidate_transactions_def rewardTx_def reward_carol_def engine_of_def
          genesis0_def)
  show ?thesis
    using run_miner_mines[OF ne hit miss] by (simp add: carol_mines_def mb) (simp add: engine_of_def)
qed

text \<open>
  Claim C10. A transaction whose sender is the literal \<^verbatim>\<open>'SYSTEM'\<close>, with any non-empty
  recipient, any amount and any non-empty signature, is accepted by \<^verbatim>\<open>addTransaction\<close>.
  The validator's signature check passes on it whatever the verifier answers, and once
  it is mined on a valid chain, from a pool that otherwise verifies, the chain still
  validates; the recipient (when not \<^verbatim>\<open>'SYSTEM'\<close> itself) is credited the amount.
\<close>

theorem forged_system_transaction:
  assumes "sender tx = SYSTEM" and "recipient tx \<noteq> []" and "signature tx \<noteq> []"
    and "recipient tx \<noteq> SYSTEM"
    and "chain this \<noteq> []"
    and "isChainValid P this = \<lparr>isValid = True, errorBlockIndex = - 1\<rparr>"
    and "verify_transactions P (pendingTransactions this)"
    and "run_miner P (minePendingTransactions minerAddress uuid now_reward now_block)
           (snd (addTransaction tx this)) = Some (r, this')"
  shows "fst (addTransaction tx this) = None \<and>
         (\<forall>V. verify_transactions (P\<lparr>verifySignature := V\<rparr>) [tx]) \<and>
         tx \<in> set (transactions (last (chain this'))) \<and>
         isChainValid P this' = \<lparr>isValid = True, errorBlockIndex = - 1\<rparr> \<and>
         getBalanceOfAddress (recipient tx) this' - getBalanceOfAddress (recipient tx) this =
           amount tx + (\<Sum>t\<leftarrow>pendingTransactions this. credit (recipient tx) t)
             + (if recipient tx = minerAddress then miningReward this else 0)"
proof -
  let ?s = "this\<lparr>pendingTransactions := pendingTransactions this @ [tx]\<rparr>"
  have add: "addTransaction tx this = (None, ?s)"
    using assms(1-3) by (simp add: addTransaction_def SYSTEM_def)
  have ne: "chain ?s \<noteq> []" using assms(5) by simp
  have run: "run_miner P (minePendingTransactions minerAddress uuid now_reward now_block) ?s =
               Some (r, this')"
    using assms(8) by (simp add: add)
  have valid: "isChainValid P ?s = \<lparr>isValid = True, errorBlockIndex = - 1\<rparr>"
    using assms(6) by (simp add: isChainValid_def)
  have pool: "verify_transactions P (pendingTransactions ?s)"
    using assms(1,7) by (simp add: verify_transactions_iff SYSTEM_def)
  have skip: "\<forall>V. verify_transactions (P\<lparr>verifySignature := V\<rparr>) [tx]"
    using assms(1) by (simp add: SYSTEM_def)
  let ?n = "LEAST n. leading_zeros (difficulty ?s)
                      (candidate_hash P minerAddress uuid now_reward now_block ?s n)"
  from run have t: "this' = ?s\<lparr>chain := chain ?s @
        [mined_block P minerAddress uuid now_reward now_block ?s ?n], pendingTransactions := []\<rparr>"
    unfolding run_miner_result[OF ne] by (simp add: Let_def split: if_splits)
  have mem: "tx \<in> set (transactions (last (chain this')))"
    by (simp add: t mined_block_def candidate_transactions_def)
  have bal0: "getBalanceOfAddress (recipient tx) ?s = getBalanceOfAddress (recipient tx) this"
    using assms(1,4) by (simp add: getBalanceOfAddress_sum spec_balance_def
        committed_transactions_def debit_def)
  have "getBalanceOfAddress (recipient tx) this' - getBalanceOfAddress (recipient tx) ?s =
           (\<Sum>t\<leftarrow>pendingTransactions ?s. credit (recipient tx) t)
             + (if recipient tx = minerAddress then miningReward ?s else 0)
             - (if recipient tx = SYSTEM then miningReward ?s else 0)"
    using ne run by (rule run_miner_balance)
  then have bal: "getBalanceOfAddress (recipient tx) this' - getBalanceOfAddress (recipient tx) this =
           amount tx + (\<Sum>t\<leftarrow>pendingTransactions this. credit (recipient tx) t)
             + (if recipient tx = minerAddress then miningReward this else 0)"
    using assms(4) by (simp add: bal0 credit_def)
  show ?thesis
    using add skip mem mining_keeps_valid[OF ne run valid pool] bal by simp
qed

theorem forged_system_transaction_witness:
  "addTransaction forged (engine_of [genesis0] []) = (None, engine_of [genesis0] [forged]) \<and>
   run_miner demo (minePendingTransactions ''pcarol'' ''r1'' 2000 2001)
     (engine_of [genesis0] [forged]) =
     Some (Inr (Some block_forged), engine_of [genesis0, block_forged] []) \<and>
   forged \<in> set (transactions block_forged) \<and>
   isChainValid demo (engine_of [genesis0, block_forged] []) =
     \<lparr>isValid = True, errorBlockIndex = - 1\<rparr> \<and>
   getBalanceOfAddress ''pmallory'' (engine_of [genesis0] []) = 0 \<and>
   getBalanceOfAddress ''pmallory'' (engine_of [genesis0, block_forged] []) = 1000000"
proof -
  let ?E = "engine_of [genesis0] []"
  have add: "addTransaction forged ?E = (None, engine_of [genesis0] [forged])"
    by (simp add: addTransaction_def engine_of_def forged_def)
  have h: "sender forged = SYSTEM" "recipient forged \<noteq> []" "signature forged \<noteq> []"
    "recipient forged \<noteq> SYSTEM" "chain ?E \<noteq> []" "verify_transactions demo (pendingTransactions ?E)"
    by (simp_all add: forged_def SYSTEM_def engine_of_def)
  have v: "isChainValid demo ?E = \<lparr>isValid = True, errorBlockIndex = - 1\<rparr>"
    by (simp add: isChainValid_def engine_of_def validate_from_end)
  have run: "run_miner demo (minePendingTransactions ''pcarol'' ''r1'' 2000 2001)
               (snd (addTransaction forged ?E)) =
             Some (Inr (Some block_forged), engine_of [genesis0, block_forged] [])"
    using carol_mines_forged by (simp add: carol_mines_def add)
  have b0: "getBalanceOfAddress ''pmallory'' ?E = 0"
    by (simp add: getBalanceOfAddress_def engine_of_def genesis0_def)
  have r: "recipient forged = ''pmallory''" "amount forged = 1000000"
    by (simp_all add: forged_def)
  from forged_system_transaction[OF h(1-5) v h(6) run] add run b0
  show ?thesis by (simp add: r engine_of_def block_forged_def)
qed

subsection \<open>A platform without collisions\<close>












subsection \<open>Corrupting a block\<close>















end
